theory Spec2Isabelle
  imports Main "HOL-Library.AList"
begin

section \<open>JavaScript values and strings\<close>

text \<open>
  The values a row or a filter leaf can hold. \<open>ValueTypes\<close> of \<^verbatim>\<open>database-utils.ts\<close> is
  \<^verbatim>\<open>string | number | boolean | string[] | Date | null | undefined\<close>; arrays of any value
  and plain objects of such values are values too, since \<^verbatim>\<open>transformValues\<close> takes
  \<^verbatim>\<open>any\<close>. \<open>JDate\<close> is a Date instance, by its time value. A function is not a value of
  the model, so neither is the constructor \<^verbatim>\<open>Date\<close>. Numbers are the integers and NaN;
  fractions and infinities are outside the model.
\<close>

datatype jsnumber = Fin int | NaN

datatype jsvalue =
    JUndefined
  | JNull
  | JBool bool
  | JNum jsnumber
  | JStr string
  | JArr "jsvalue list"
  | JObj "(string \<times> jsvalue) list"
  | JDate int

text \<open>
  An object used as a record is the list of its own enumerable entries in the order of
  \<^verbatim>\<open>Object.keys\<close>. The code reads \<^verbatim>\<open>data[k]\<close> only for the keys \<^verbatim>\<open>Object.keys(data)\<close>
  gives, which finds the own entry.
\<close>

type_synonym jsrecord = "(string \<times> jsvalue) list"

definition keys_of :: "jsrecord \<Rightarrow> string list" where
  "keys_of r = map fst r"

definition get_prop :: "jsrecord \<Rightarrow> string \<Rightarrow> jsvalue" where
  "get_prop r k = (case map_of r k of None \<Rightarrow> JUndefined | Some v \<Rightarrow> v)"

text \<open>
  The assignment \<^verbatim>\<open>r[k] = value\<close> on an object that started as \<^verbatim>\<open>{}\<close>. Such an object
  inherits from \<^verbatim>\<open>Object.prototype\<close>, whose only property with a setter is \<^verbatim>\<open>__proto__\<close>:
  assigning to that key creates no own entry; it makes the value the object's prototype
  when the value is an object or \<^verbatim>\<open>null\<close>, and does nothing otherwise. Every other key
  becomes an own entry, replaced in place or appended. Once the prototype is \<^verbatim>\<open>null\<close>
  nothing is inherited and \<^verbatim>\<open>__proto__\<close> is a key like any other. The object is the pair
  of the flag "the prototype is \<^verbatim>\<open>null\<close>" and its own entries.
\<close>

definition set_prop :: "bool \<times> jsrecord \<Rightarrow> string \<Rightarrow> jsvalue \<Rightarrow> bool \<times> jsrecord" where
  "set_prop r k v =
     (case r of
        (null_proto, own) \<Rightarrow>
          if k = ''__proto__'' \<and> \<not> null_proto then (v = JNull, own)
          else (null_proto, AList.update k v own))"

text \<open>\<^verbatim>\<open>Array.prototype.join\<close> on strings.\<close>

fun join :: "string \<Rightarrow> string list \<Rightarrow> string" where
  "join sep [] = []"
| "join sep [x] = x"
| "join sep (x # y # ys) = x @ sep @ join sep (y # ys)"

text \<open>\<^verbatim>\<open>String.prototype.split\<close> with a one-character separator: never the empty list.\<close>

fun split :: "char \<Rightarrow> string \<Rightarrow> string list" where
  "split c [] = [[]]"
| "split c (x # xs) =
     (if x = c then [] # split c xs
      else (case split c xs of [] \<Rightarrow> [[x]] | p # ps \<Rightarrow> (x # p) # ps))"

text \<open>
  \<^verbatim>\<open>String.prototype.trim\<close>: the white space and line terminators among the characters
  of an 8-bit string are tab, line feed, vertical tab, form feed, carriage return, space
  and the no-break space.
\<close>

definition is_space :: "char \<Rightarrow> bool" where
  "is_space c = (of_char c \<in> {9, 10, 11, 12, 13, 32, 160 :: nat})"

definition trim :: "string \<Rightarrow> string" where
  "trim s = rev (dropWhile is_space (rev (dropWhile is_space s)))"

text \<open>The decimal text of a natural number, as a template literal prints an index.\<close>

definition digit :: "nat \<Rightarrow> char" where
  "digit d = ''0123456789'' ! d"

fun show_nat :: "nat \<Rightarrow> string" where
  "show_nat n = (if n < 10 then [digit n] else show_nat (n div 10) @ [digit (n mod 10)])"

declare show_nat.simps [simp del]

text \<open>
  A number of the code is an IEEE double. The sum \<^verbatim>\<open>valueOffset + filterValues.length\<close> of
  two non-negative integers is the exact sum rounded to 53 significant bits, ties to the
  even significand; a sum of at most 53 bits, that is below \<open>2 ^ 53\<close>, is not rounded.
  (The sum of an offset and a length stays far below \<open>2 ^ 1024\<close>, where a double
  overflows.)
\<close>

fun bit_length :: "nat \<Rightarrow> nat" where
  "bit_length n = (if n = 0 then 0 else Suc (bit_length (n div 2)))"

declare bit_length.simps [simp del]

definition round53 :: "nat \<Rightarrow> nat" where
  "round53 v =
     (if bit_length v \<le> 53 then v
      else (let sh = bit_length v - 53;
                q = v div 2 ^ sh;
                r = v mod 2 ^ sh;
                half = 2 ^ (sh - 1)
            in (if half < r \<or> (r = half \<and> odd q) then q + 1 else q) * 2 ^ sh))"

definition js_add :: "nat \<Rightarrow> nat \<Rightarrow> nat" where
  "js_add a b = round53 (a + b)"

text \<open>
  The text a template literal prints for a non-negative integer-valued double \<open>x\<close>
  (\<^verbatim>\<open>Number::toString\<close>): the fewest significant digits \<open>s\<close>, with a power of ten, whose
  value still rounds to \<open>x\<close>, and of these the value closest to \<open>x\<close>. Up to 21 digits
  the value is printed in full, beyond that as \<^verbatim>\<open>d.ddde+n\<close>. Below \<open>2 ^ 53\<close> (at most
  53 bits) every integer is a double of its own, and the text is the decimal text of
  \<open>x\<close>.
  \<open>shortest_from x e\<close> tries the powers \<open>10 ^ e\<close>, \<open>10 ^ (e - 1)\<close>, ... in turn.
\<close>

fun shortest_from :: "nat \<Rightarrow> nat \<Rightarrow> nat \<times> nat" where
  "shortest_from x 0 = (x, 0)"
| "shortest_from x (Suc e) =
     (let p = 10 ^ Suc e;
          lo = x div p;
          hi = lo + 1;
          ok_lo = (round53 (lo * p) = x);
          ok_hi = (round53 (hi * p) = x)
      in if ok_lo \<and> ok_hi then
           (if x - lo * p < hi * p - x then (lo, Suc e)
            else if hi * p - x < x - lo * p then (hi, Suc e)
            else if even lo then (lo, Suc e) else (hi, Suc e))
         else if ok_lo then (lo, Suc e)
         else if ok_hi then (hi, Suc e)
         else shortest_from x e)"

definition strip_zeros :: "string \<Rightarrow> string" where
  "strip_zeros ds = rev (dropWhile (\<lambda>c. c = CHR ''0'') (rev ds))"

definition show_number :: "nat \<Rightarrow> string" where
  "show_number x =
     (if bit_length x \<le> 53 then show_nat x
      else (case shortest_from x (length (show_nat x) - 1) of
              (s, e) \<Rightarrow>
                (let printed = show_nat (s * 10 ^ e);
                     n = length printed
                 in if n \<le> 21 then printed
                    else (let ds = strip_zeros (show_nat s)
                          in (if length ds = 1 then ds else hd ds # CHR ''.'' # tl ds)
                               @ ''e+'' @ show_nat (n - 1)))))"

section \<open>The naming conversion\<close>

text \<open>
  Modelled from the spec: \<^verbatim>\<open>snakeCase\<close> is imported from the package \<^verbatim>\<open>snake-case\<close>,
  which is not among the sources. The spec asks for a conversion "from a camel/mixed-case
  identifier to the storage naming convention (lower-case, words separated by underscore)".
  The model follows the package: a word boundary is put between a lower-case letter or
  digit and an upper-case letter, and before the last capital of a run of capitals that a
  lower-case letter follows; every run of other characters is a boundary; boundaries at
  both ends are dropped; the words are lower-cased and joined with an underscore.
\<close>

definition is_upper :: "char \<Rightarrow> bool" where
  "is_upper c = (c \<in> set ''ABCDEFGHIJKLMNOPQRSTUVWXYZ'')"

definition is_lower :: "char \<Rightarrow> bool" where
  "is_lower c = (c \<in> set ''abcdefghijklmnopqrstuvwxyz'')"

definition is_digit :: "char \<Rightarrow> bool" where
  "is_digit c = (c \<in> set ''0123456789'')"

definition is_alnum :: "char \<Rightarrow> bool" where
  "is_alnum c = (is_upper c \<or> is_lower c \<or> is_digit c)"

definition lower_char :: "char \<Rightarrow> char" where
  "lower_char c =
     (case map_of (zip ''ABCDEFGHIJKLMNOPQRSTUVWXYZ'' ''abcdefghijklmnopqrstuvwxyz'') c of
        None \<Rightarrow> c | Some l \<Rightarrow> l)"

definition boundary :: char where
  "boundary = CHR 0x00"

fun split_camel :: "string \<Rightarrow> string" where
  "split_camel (a # b # r) =
     (if (is_lower a \<or> is_digit a) \<and> is_upper b then a # boundary # split_camel (b # r)
      else a # split_camel (b # r))"
| "split_camel r = r"

fun split_capitals :: "string \<Rightarrow> string" where
  "split_capitals (a # b # c # r) =
     (if is_upper a \<and> is_upper b \<and> is_lower c then a # boundary # split_capitals (b # c # r)
      else a # split_capitals (b # c # r))"
| "split_capitals r = r"

text \<open>
  Every maximal run of characters outside \<^verbatim>\<open>[A-Za-z0-9]\<close> becomes one boundary; the flag
  says that the run has already been replaced.
\<close>

fun strip_runs :: "bool \<Rightarrow> string \<Rightarrow> string" where
  "strip_runs in_run [] = []"
| "strip_runs in_run (c # r) =
     (if is_alnum c then c # strip_runs False r
      else if in_run then strip_runs True r
      else boundary # strip_runs True r)"

definition snakeCase :: "string \<Rightarrow> string" where
  "snakeCase input =
     (let result = strip_runs False (split_capitals (split_camel input));
          sliced = rev (dropWhile (\<lambda>x. x = boundary) (rev (dropWhile (\<lambda>x. x = boundary) result)))
      in join ''_'' (map (map lower_char) (split boundary sliced)))"


section \<open>Filters\<close>

text \<open>
  Modelled from the spec: the types \<^verbatim>\<open>FilterExpression\<close>, \<^verbatim>\<open>FilterSubExpressions\<close>,
  \<^verbatim>\<open>BulkFilter\<close> and \<^verbatim>\<open>Operator\<close> are imported from \<^verbatim>\<open>@vramework/generic\<close>, which is not
  among the sources. The spec's data model gives a node as either a leaf
  \<^verbatim>\<open>{ field, operator, value, conditionType? }\<close> or a group
  \<^verbatim>\<open>{ expressions, conditionType? }\<close>, and a BulkFilter as
  \<^verbatim>\<open>{ filters?, sort?: { key, order }, limit?, offset?, freeText? }\<close>. An operator is the
  string the code compares and looks up, so a tag outside the known ones is a value too.
\<close>

datatype conditionType = AND | OR

fun conditionType_text :: "conditionType \<Rightarrow> string" where
  "conditionType_text AND = ''AND''"
| "conditionType_text OR = ''OR''"

datatype FilterNode =
    FilterLeaf "conditionType option" string string jsvalue
  | FilterGroup "conditionType option" "FilterNode list"

record SortSpec =
  sort_key :: string
  sort_order :: string

record BulkFilter =
  filters :: "FilterNode list option"
  sort_spec :: "SortSpec option"
  limit :: "jsnumber option"
  offset :: "jsnumber option"
  freeText :: "string option"

text \<open>
  The objects \<^verbatim>\<open>manageFilters\<close> pushes: \<^verbatim>\<open>{ conditionType }\<close>, \<^verbatim>\<open>{ grouping: '(' }\<close>,
  \<^verbatim>\<open>{ grouping: ')' }\<close>, \<^verbatim>\<open>{ operator, field, value }\<close> and
  \<^verbatim>\<open>{ table, operator, field, value }\<close>. A leaf token never carries the node's
  \<^verbatim>\<open>conditionType\<close>: that is pushed before it, as a token of its own.
\<close>

datatype grouping = OpenGroup | CloseGroup

fun grouping_text :: "grouping \<Rightarrow> string" where
  "grouping_text OpenGroup = ''(''"
| "grouping_text CloseGroup = '')''"

datatype token =
    ConditionToken conditionType
  | GroupingToken grouping
  | LeafToken "string option" string string jsvalue

text \<open>\<^verbatim>\<open>parts[0].replace(/s$/, '')\<close>: one trailing \<open>s\<close> is removed.\<close>

definition strip_plural :: "string \<Rightarrow> string" where
  "strip_plural s = (if s \<noteq> [] \<and> last s = CHR ''s'' then butlast s else s)"

definition push_conditionType :: "conditionType option \<Rightarrow> token list \<Rightarrow> token list" where
  "push_conditionType ct result =
     (case ct of None \<Rightarrow> result | Some c \<Rightarrow> result @ [ConditionToken c])"

definition leaf_token :: "string \<Rightarrow> string \<Rightarrow> jsvalue \<Rightarrow> token" where
  "leaf_token field operator v =
     (let parts = split CHR ''.'' field
      in if length parts = 1 then LeafToken None operator field v
         else LeafToken (Some (strip_plural (hd parts))) operator (last parts) v)"

text \<open>
  \<^verbatim>\<open>expressions.reduce(..., [])\<close>: \<open>manageFilters_reduce result\<close> is the rest of the reduction
  from the accumulator \<open>result\<close>.
\<close>

fun manageFilters_reduce :: "token list \<Rightarrow> FilterNode list \<Rightarrow> token list" where
  "manageFilters_reduce result [] = result"
| "manageFilters_reduce result (FilterGroup ct expressions # rest) =
     manageFilters_reduce
       (push_conditionType ct result @ [GroupingToken OpenGroup]
          @ manageFilters_reduce [] expressions @ [GroupingToken CloseGroup]) rest"
| "manageFilters_reduce result (FilterLeaf ct field operator v # rest) =
     manageFilters_reduce (push_conditionType ct result @ [leaf_token field operator v]) rest"

definition manageFilters :: "FilterNode list \<Rightarrow> token list" where
  "manageFilters expressions = manageFilters_reduce [] expressions"

definition operatorToMysql :: "(string \<times> string) list" where
  "operatorToMysql =
     [(''gt'', ''>''), (''gte'', ''>=''), (''lt'', ''<''), (''lte'', ''<=''), (''eq'', ''=''),
      (''ne'', ''!=''), (''on'', ''=''), (''after'', ''>''), (''before'', ''<'')]"

text \<open>
  A template literal of the filter text is kept as its pieces, so that the hole
  \<^verbatim>\<open>$${valueOffset + filterValues.length}\<close> stays apart from the text around it; the string
  the code builds is the pieces printed one after the other.
\<close>

datatype piece = Lit string | Placeholder nat

type_synonym fragment = "piece list"

fun piece_text :: "piece \<Rightarrow> string" where
  "piece_text (Lit s) = s"
| "piece_text (Placeholder n) = ''$'' @ show_number n"

definition fragment_text :: "fragment \<Rightarrow> string" where
  "fragment_text f = concat (map piece_text f)"

definition dq :: string where
  "dq = [CHR 0x22]"

text \<open>
  The callback of \<^verbatim>\<open>cleanFilters.map\<close>, with the array \<^verbatim>\<open>filterValues\<close> it pushes to passed
  in and returned. \<^verbatim>\<open>conditionType\<close> is destructured with the default \<^verbatim>\<open>''\<close>, and a leaf
  token has none, so it is the empty string in the leaf's templates.
\<close>

fun emit :: "nat \<Rightarrow> jsvalue list \<Rightarrow> token \<Rightarrow> fragment option \<times> jsvalue list" where
  "emit valueOffset filterValues (GroupingToken g) = (Some [Lit (grouping_text g)], filterValues)"
| "emit valueOffset filterValues (ConditionToken c) =
     (Some [Lit (conditionType_text c)], filterValues)"
| "emit valueOffset filterValues (LeafToken table operator field v) =
     (let conditionType = [];
          t = (case table of None \<Rightarrow> [] | Some tb \<Rightarrow> if tb \<noteq> [] then dq @ tb @ dq @ ''.'' else []);
          column = t @ dq @ snakeCase field @ dq
      in if operator = ''includes'' \<or> operator = ''excludes'' then
           (let pushed = filterValues @ [v]
            in (Some [Lit conditionType, Lit '' '', Placeholder (js_add valueOffset (length pushed)),
                      Lit '' '', Lit (if operator = ''includes'' then ''='' else ''!=''),
                      Lit '' ANY ('', Lit t, Lit dq, Lit (snakeCase field), Lit dq, Lit '')''],
                pushed))
         else (case map_of operatorToMysql operator of
                 Some symbol \<Rightarrow>
                   (let pushed = filterValues @ [v]
                    in (Some [Lit conditionType, Lit '' '', Lit column, Lit '' '', Lit symbol,
                              Lit '' '', Placeholder (js_add valueOffset (length pushed))],
                        pushed))
               | None \<Rightarrow>
                   (if conditionType \<noteq> [] then Some [Lit conditionType] else None,
                    filterValues)))"

fun emit_all ::
  "nat \<Rightarrow> jsvalue list \<Rightarrow> token list \<Rightarrow> fragment option list \<times> jsvalue list" where
  "emit_all valueOffset filterValues [] = ([], filterValues)"
| "emit_all valueOffset filterValues (tok # toks) =
     (case emit valueOffset filterValues tok of
        (out, pushed) \<Rightarrow>
          (case emit_all valueOffset pushed toks of
             (outs, final) \<Rightarrow> (out # outs, final)))"

text \<open>\<^verbatim>\<open>.filter(v => !!v)\<close>: \<^verbatim>\<open>undefined\<close> and the empty string are dropped.\<close>

fun truthy_fragments :: "fragment option list \<Rightarrow> fragment list" where
  "truthy_fragments [] = []"
| "truthy_fragments (None # outs) = truthy_fragments outs"
| "truthy_fragments (Some f # outs) =
     (if fragment_text f \<noteq> [] then f # truthy_fragments outs else truthy_fragments outs)"

text \<open>The token list \<^verbatim>\<open>cleanFilters\<close> of \<^verbatim>\<open>createFilters\<close>, free text included.\<close>

definition cleanFilters :: "BulkFilter \<Rightarrow> string list \<Rightarrow> token list" where
  "cleanFilters data freeTextFields =
     (let given = (case filters data of None \<Rightarrow> [] | Some fs \<Rightarrow> fs)
      in case freeText data of
           None \<Rightarrow> manageFilters given
         | Some ft \<Rightarrow>
             if ft \<noteq> [] \<and> trim ft \<noteq> [] then
               (let freeTextFilters =
                      map (\<lambda>(index, field).
                             FilterLeaf (if index = 0 then None else Some OR) field ''contains'' (JStr ft))
                          (enumerate 0 freeTextFields)
                in manageFilters
                     (given @ [FilterGroup (if length given \<noteq> 0 then Some AND else None)
                                            freeTextFilters]))
             else manageFilters given)"

text \<open>
  The local array \<^verbatim>\<open>filters\<close> of \<^verbatim>\<open>createFilters\<close>, as fragments, with the final
  \<^verbatim>\<open>filterValues\<close>.
\<close>

definition filterFragments ::
  "BulkFilter \<Rightarrow> string list \<Rightarrow> nat \<Rightarrow> fragment list \<times> jsvalue list" where
  "filterFragments data freeTextFields valueOffset =
     (let toks = cleanFilters data freeTextFields
      in if length toks > 0 then
           (case emit_all valueOffset [] toks of (outs, filterValues) \<Rightarrow>
              (truthy_fragments outs, filterValues))
         else ([], []))"

text \<open>\<^verbatim>\<open>x || d\<close> on a number: zero and NaN are falsy.\<close>

fun truthy_number :: "jsnumber \<Rightarrow> bool" where
  "truthy_number (Fin n) = (n \<noteq> 0)"
| "truthy_number NaN = False"

definition or_default :: "jsnumber option \<Rightarrow> jsnumber \<Rightarrow> jsnumber" where
  "or_default x d = (case x of None \<Rightarrow> d | Some n \<Rightarrow> if truthy_number n then n else d)"

definition sortClause :: "SortSpec option \<Rightarrow> string" where
  "sortClause s =
     (case s of
        None \<Rightarrow> []
      | Some srt \<Rightarrow>
          (let parts = split CHR ''.'' (sort_key srt);
               table = (if length parts > 1 then dq @ hd parts @ dq @ ''.'' else []);
               field = last parts
           in ''ORDER BY '' @ table @ snakeCase field @ '' '' @ sort_order srt))"

record CompiledFilter =
  r_limit :: jsnumber
  r_offset :: jsnumber
  r_sort :: string
  r_filter :: string
  r_filterValues :: "jsvalue list"

definition createFilters :: "BulkFilter \<Rightarrow> string list \<Rightarrow> bool \<Rightarrow> nat \<Rightarrow> CompiledFilter" where
  "createFilters data freeTextFields includeWhere valueOffset =
     (case filterFragments data freeTextFields valueOffset of
        (frags, filterValues) \<Rightarrow>
          \<lparr> r_limit = or_default (limit data) (Fin 1000),
            r_offset = or_default (offset data) (Fin 0),
            r_sort = sortClause (sort_spec data),
            r_filter =
              (if length frags > 0
               then (if includeWhere then ''WHERE '' else []) @ join '' '' (map fragment_text frags)
               else []),
            r_filterValues = filterValues \<rparr>)"

text \<open>
  \<^verbatim>\<open>getFilters\<close> takes a plain field/value object (\<open>Inl\<close>, its entries in order) or an
  array of filter nodes (\<open>Inr\<close>).
\<close>

definition only_filters :: "FilterNode list \<Rightarrow> BulkFilter" where
  "only_filters fs =
     \<lparr> filters = Some fs, sort_spec = None, limit = None, offset = None, freeText = None \<rparr>"

definition getFilters :: "jsrecord + FilterNode list \<Rightarrow> CompiledFilter" where
  "getFilters fs =
     (case fs of
        Inr nodes \<Rightarrow> createFilters (only_filters nodes) [] True 0
      | Inl entries \<Rightarrow>
          createFilters
            (only_filters
               (map (\<lambda>(index, (field, v)).
                       FilterLeaf (if index \<noteq> 0 then Some AND else None) field ''eq'' v)
                    (enumerate 0 entries)))
            [] True 0)"

section \<open>Inserts\<close>

definition createInsert :: "jsrecord \<Rightarrow> nat \<Rightarrow> string \<times> string \<times> jsvalue list" where
  "createInsert data offs =
     (let keys = filter (\<lambda>k. get_prop data k \<noteq> JUndefined) (keys_of data);
          vals = map (\<lambda>k. ''?'') keys;
          realValues = map (\<lambda>k. get_prop data k) keys
      in (dq @ join (dq @ '','' @ dq) (map snakeCase keys) @ dq, join '','' vals, realValues))"

text \<open>
  \<^verbatim>\<open>Array.prototype.join\<close> on values: \<^verbatim>\<open>undefined\<close> and \<^verbatim>\<open>null\<close> print as the empty
  string and a string as itself; how any other element prints is the built-in conversion
  to a string, the parameter \<open>toStr\<close>.
\<close>

definition element_text :: "(jsvalue \<Rightarrow> string) \<Rightarrow> jsvalue \<Rightarrow> string" where
  "element_text toStr v =
     (case v of JUndefined \<Rightarrow> [] | JNull \<Rightarrow> [] | JStr s \<Rightarrow> s | _ \<Rightarrow> toStr v)"

text \<open>
  The value one step of the reduction in \<^verbatim>\<open>transformValues\<close> assigns: a number, a string
  and \<^verbatim>\<open>null\<close> are kept, an array under the key \<^verbatim>\<open>tags\<close> is printed as
  \<^verbatim>\<open>`{ ${value.join(',')}}`\<close>, and anything else goes through \<^verbatim>\<open>JSON.stringify\<close>. The
  test \<^verbatim>\<open>value === Date\<close> compares with the constructor function, which no value of the
  model is: it is false for each of them, a Date instance included.
  \<^verbatim>\<open>JSON.stringify\<close> gives \<^verbatim>\<open>undefined\<close> for \<^verbatim>\<open>undefined\<close> and a string for every
  other value of the model (finite trees with no function and no BigInt); that string is
  the parameter \<open>json\<close>.
\<close>

definition coerce :: "(jsvalue \<Rightarrow> string) \<Rightarrow> (jsvalue \<Rightarrow> string) \<Rightarrow> string \<Rightarrow> jsvalue \<Rightarrow> jsvalue" where
  "coerce json toStr k v =
     (case v of
        JNum n \<Rightarrow> v
      | JStr s \<Rightarrow> v
      | JNull \<Rightarrow> v
      | JArr xs \<Rightarrow>
          if k = ''tags'' then JStr (''{ '' @ join '','' (map (element_text toStr) xs) @ ''}'')
          else JStr (json v)
      | JUndefined \<Rightarrow> JUndefined
      | _ \<Rightarrow> JStr (json v))"

text \<open>
  \<^verbatim>\<open>Object.keys(from).reduce(..., {})\<close>: the accumulator starts as \<^verbatim>\<open>{}\<close>, and what is
  returned is read by its own entries.
\<close>

definition transformValues ::
  "(jsvalue \<Rightarrow> string) \<Rightarrow> (jsvalue \<Rightarrow> string) \<Rightarrow> jsrecord \<Rightarrow> jsrecord" where
  "transformValues json toStr from =
     snd (foldl (\<lambda>r k. set_prop r k (coerce json toStr k (get_prop from k))) (False, [])
            (keys_of from))"

datatype error = TypeError

text \<open>
  The callback of \<^verbatim>\<open>bulk.map\<close> in \<^verbatim>\<open>createBulkInsert\<close>: the counter \<^verbatim>\<open>i\<close> and the arrays
  \<^verbatim>\<open>keys\<close> and \<^verbatim>\<open>values\<close> are passed in and returned with the row's values.
\<close>

definition bulk_row ::
  "(jsvalue \<Rightarrow> string) \<Rightarrow> (jsvalue \<Rightarrow> string) \<Rightarrow> nat \<times> string list \<times> string list \<Rightarrow> jsrecord
     \<Rightarrow> (nat \<times> string list \<times> string list) \<times> jsvalue list" where
  "bulk_row json toStr st data0 =
     (case st of (i, keys, vals) \<Rightarrow>
        (let data = transformValues json toStr data0;
             keys1 = foldl (\<lambda>ks key. if key \<in> set ks then ks else ks @ [key]) keys (keys_of data);
             tuple = ''('' @ join '','' (map (\<lambda>j. ''$'' @ show_nat j) [i ..< i + length keys1]) @ '')''
         in ((i + length keys1, keys1, vals @ [tuple]), map (\<lambda>k. get_prop data k) (keys_of data))))"

fun bulk_rows ::
  "(jsvalue \<Rightarrow> string) \<Rightarrow> (jsvalue \<Rightarrow> string) \<Rightarrow> nat \<times> string list \<times> string list \<Rightarrow> jsrecord list
     \<Rightarrow> (nat \<times> string list \<times> string list) \<times> jsvalue list list" where
  "bulk_rows json toStr st [] = (st, [])"
| "bulk_rows json toStr st (data # rest) =
     (case bulk_row json toStr st data of
        (st1, row) \<Rightarrow>
          (case bulk_rows json toStr st1 rest of (st2, rows) \<Rightarrow> (st2, row # rows)))"

text \<open>
  \<^verbatim>\<open>realValues.reduce((r, v) => [...r, ...v])\<close> has no initial value: on the empty array it
  throws a TypeError.
\<close>

definition createBulkInsert ::
  "(jsvalue \<Rightarrow> string) \<Rightarrow> (jsvalue \<Rightarrow> string) \<Rightarrow> jsrecord list
     \<Rightarrow> error + string \<times> string \<times> jsvalue list" where
  "createBulkInsert json toStr bulk =
     (case bulk_rows json toStr (1, [], []) bulk of
        ((i, keys, vals), realValues) \<Rightarrow>
          (case realValues of
             [] \<Rightarrow> Inl TypeError
           | v # vs \<Rightarrow>
               Inr (dq @ join (dq @ '','' @ dq) (map snakeCase keys) @ dq, join '','' vals,
                    foldl (\<lambda>r x. r @ x) v vs)))"

section \<open>Result cardinality\<close>

definition exactlyOneResult :: "'a list \<Rightarrow> 'e \<Rightarrow> 'e + 'a" where
  "exactlyOneResult result Err = (if length result \<noteq> 1 then Inl Err else Inr (result ! 0))"


section \<open>Notions of the statements\<close>

text \<open>
  The operators \<^verbatim>\<open>createFilters\<close> prints a comparison for: \<^verbatim>\<open>includes\<close>, \<^verbatim>\<open>excludes\<close>
  and the keys of \<^verbatim>\<open>operatorToMysql\<close>.
\<close>

definition recognised :: "string \<Rightarrow> bool" where
  "recognised operator =
     (operator = ''includes'' \<or> operator = ''excludes'' \<or> operator \<in> set (map fst operatorToMysql))"

text \<open>The field paths of the leaves of a BulkFilter's \<^verbatim>\<open>filters\<close>, at any depth.\<close>

fun node_fields :: "FilterNode \<Rightarrow> string list" where
  "node_fields (FilterLeaf ct field operator v) = [field]"
| "node_fields (FilterGroup ct expressions) = concat (map node_fields expressions)"

definition leaf_fields :: "BulkFilter \<Rightarrow> string list" where
  "leaf_fields data =
     concat (map node_fields (case filters data of None \<Rightarrow> [] | Some fs \<Rightarrow> fs))"

text \<open>
  The placeholder tokens of a text, read from left to right: a placeholder is a \<open>$\<close>
  followed by one or more decimal digits, and its number is the value of all the digits
  that follow the \<open>$\<close>. The state says what has been read since the last other
  character: nothing of a placeholder, the \<open>$\<close>, or the \<open>$\<close> and digits.
\<close>

datatype scan_state = Idle | Dollar | Digits nat

definition digit_value :: "char \<Rightarrow> nat" where
  "digit_value c =
     (case map_of (zip ''0123456789'' [0, 1, 2, 3, 4, 5, 6, 7, 8, 9]) c of
        None \<Rightarrow> 0 | Some d \<Rightarrow> d)"

fun flush :: "scan_state \<Rightarrow> nat list" where
  "flush (Digits n) = [n]"
| "flush Dollar = []"
| "flush Idle = []"

fun scan :: "scan_state \<Rightarrow> string \<Rightarrow> nat list" where
  "scan st [] = flush st"
| "scan st (c # r) =
     (if is_digit c then
        (case st of
           Idle \<Rightarrow> scan Idle r
         | Dollar \<Rightarrow> scan (Digits (digit_value c)) r
         | Digits n \<Rightarrow> scan (Digits (10 * n + digit_value c)) r)
      else flush st @ scan (if c = CHR ''$'' then Dollar else Idle) r)"

definition placeholders_in :: "string \<Rightarrow> nat list" where
  "placeholders_in text = scan Idle text"

text \<open>The placeholder numbers of fragments, in the order they are printed.\<close>

fun piece_numbers :: "piece \<Rightarrow> nat list" where
  "piece_numbers (Placeholder n) = [n]"
| "piece_numbers (Lit s) = []"

definition fragment_numbers :: "fragment \<Rightarrow> nat list" where
  "fragment_numbers f = concat (map piece_numbers f)"

definition placeholder_numbers :: "fragment list \<Rightarrow> nat list" where
  "placeholder_numbers frags = concat (map fragment_numbers frags)"

text \<open>The fragments that are there, in order.\<close>

fun present :: "fragment option list \<Rightarrow> fragment list" where
  "present [] = []"
| "present (None # outs) = present outs"
| "present (Some f # outs) = f # present outs"

text \<open>
  A fragment reads back as its placeholders when no literal piece holds a \<open>$\<close> and
  what follows a placeholder inside the fragment does not start with a digit.
\<close>

fun readable :: "fragment \<Rightarrow> bool" where
  "readable [] = True"
| "readable (Lit s # ps) = (CHR ''$'' \<notin> set s \<and> readable ps)"
| "readable [Placeholder n] = True"
| "readable (Placeholder n # Lit s # ps) =
     (s \<noteq> [] \<and> \<not> is_digit (hd s) \<and> readable (Lit s # ps))"
| "readable (Placeholder n # Placeholder m # ps) = False"

text \<open>A leaf token that is printed has no \<open>$\<close> in its table qualifier.\<close>

fun plain_token :: "token \<Rightarrow> bool" where
  "plain_token (LeafToken (Some tb) operator field v) =
     (recognised operator \<longrightarrow> CHR ''$'' \<notin> set tb)"
| "plain_token tok = True"

text \<open>The tokens one node contributes, and the compilation of a token list.\<close>

definition node_tokens :: "FilterNode \<Rightarrow> token list" where
  "node_tokens n =
     (case n of
        FilterLeaf ct field operator v \<Rightarrow> push_conditionType ct [] @ [leaf_token field operator v]
      | FilterGroup ct expressions \<Rightarrow>
          push_conditionType ct [] @ [GroupingToken OpenGroup] @ manageFilters expressions
            @ [GroupingToken CloseGroup])"

definition compiled :: "nat \<Rightarrow> token list \<Rightarrow> fragment list \<times> jsvalue list" where
  "compiled vo toks = (truthy_fragments (fst (emit_all vo [] toks)), snd (emit_all vo [] toks))"

section \<open>Result cardinality: exactly one row\<close>

text \<open>
  Claim C5. For every list of result rows and every caller-supplied error value,
  \<^verbatim>\<open>exactlyOneResult\<close> returns the single element when the list has length exactly 1, and
  otherwise (length 0 or at least 2) fails with the caller-supplied error value itself,
  never another one.
\<close>

theorem exactlyOneResult_cardinality:
  "exactlyOneResult [a] err = Inr a
   \<and> (length result = 1 \<longrightarrow> exactlyOneResult result err = Inr (hd result))
   \<and> (length result \<noteq> 1 \<longrightarrow> exactlyOneResult result err = Inl err)"
  by (cases result) (simp_all add: exactlyOneResult_def)

theorem exactlyOneResult_cardinality_witness:
  "exactlyOneResult [] ''none'' = (Inl ''none'' :: string + nat)
   \<and> exactlyOneResult [3, 4 :: nat] ''none'' = Inl ''none''
   \<and> exactlyOneResult [7 :: nat] ''none'' = Inr 7"
  using exactlyOneResult_cardinality [of "7::nat" "''none''" "[]::nat list"]
    exactlyOneResult_cardinality [of "7::nat" "''none''" "[3::nat, 4]"]
  by simp

section \<open>Limit and offset\<close>

text \<open>
  Claim C7, as amended. The code defaults with \<^verbatim>\<open>||\<close>, which replaces every falsy number:
  for every BulkFilter, \<^verbatim>\<open>createFilters\<close> returns the supplied limit when one is supplied
  and is neither 0 nor NaN, and 1000 otherwise; it returns the supplied offset when one is
  supplied and is not NaN, and 0 otherwise. A supplied limit of 0 is returned as 1000.
\<close>

theorem createFilters_limit_offset:
  "r_limit (createFilters data freeTextFields includeWhere valueOffset) =
     (case limit data of
        None \<Rightarrow> Fin 1000
      | Some n \<Rightarrow> if n = Fin 0 \<or> n = NaN then Fin 1000 else n)
   \<and> r_offset (createFilters data freeTextFields includeWhere valueOffset) =
     (case offset data of
        None \<Rightarrow> Fin 0
      | Some n \<Rightarrow> if n = NaN then Fin 0 else n)"
proof -
  have t: "truthy_number n \<longleftrightarrow> \<not> (n = Fin 0 \<or> n = NaN)" for n
    by (cases n) simp_all
  show ?thesis
    by (auto simp: createFilters_def or_default_def t split: prod.splits option.splits)
qed

theorem createFilters_limit_offset_witness:
  "r_limit (createFilters \<lparr> filters = None, sort_spec = None, limit = Some (Fin 25),
       offset = Some (Fin 50), freeText = None \<rparr> [] True 0) = Fin 25
   \<and> r_offset (createFilters \<lparr> filters = None, sort_spec = None, limit = Some (Fin 25),
       offset = Some (Fin 50), freeText = None \<rparr> [] True 0) = Fin 50"
  using createFilters_limit_offset [of "\<lparr> filters = None, sort_spec = None,
      limit = Some (Fin 25), offset = Some (Fin 50), freeText = None \<rparr>" "[]" True 0]
  by simp

text \<open>The claim as written fails: a supplied limit of 0 comes back as 1000.\<close>

theorem createFilters_limit_zero_counterexample:
  "r_limit (createFilters \<lparr> filters = None, sort_spec = None, limit = Some (Fin 0),
       offset = None, freeText = None \<rparr> [] True 0) = Fin 1000
   \<and> r_limit (createFilters \<lparr> filters = None, sort_spec = None, limit = Some (Fin 0),
       offset = None, freeText = None \<rparr> [] True 0) \<noteq> Fin 0"
  by code_simp

section \<open>Free text\<close>

text \<open>
  Claim C2 says that free text \<^verbatim>\<open>'bob'\<close> over the columns \<^verbatim>\<open>['name','notes']\<close> with no
  explicit filters gives a parenthesised pair of \<^verbatim>\<open>contains\<close> comparisons joined by OR and
  two parameter values \<^verbatim>\<open>'bob'\<close>. The code builds the two \<^verbatim>\<open>contains\<close> leaves, but
  \<^verbatim>\<open>contains\<close> is neither in \<^verbatim>\<open>operatorToMysql\<close> nor one of \<^verbatim>\<open>includes\<close> and
  \<^verbatim>\<open>excludes\<close>, so both leaves are dropped: what is left is the text
  \<^verbatim>\<open>WHERE ( OR )\<close> and no parameter value.
\<close>

theorem createFilters_freeText_contains_dropped:
  "createFilters \<lparr> filters = None, sort_spec = None, limit = None, offset = None,
       freeText = Some ''bob'' \<rparr> [''name'', ''notes''] True 0
   = \<lparr> r_limit = Fin 1000, r_offset = Fin 0, r_sort = [], r_filter = ''WHERE ( OR )'',
       r_filterValues = [] \<rparr>"
  by code_simp

section \<open>The two worked examples of filter compilation\<close>

text \<open>
  Claim C3, as amended. Every comparison is printed from the template
  \<^verbatim>\<open>${conditionType} ${column} ${op} $${n}\<close> with an empty \<^verbatim>\<open>conditionType\<close>, so it starts
  with a space: compiling the plain map \<^verbatim>\<open>{id: 'abc'}\<close> through \<^verbatim>\<open>getFilters\<close> gives
  exactly \<^verbatim>\<open>WHERE  "id" = $1\<close> (two spaces after WHERE) with the parameters
  \<^verbatim>\<open>['abc']\<close>, and compiling the two ordered leaves on \<^verbatim>\<open>owner\<close> and \<^verbatim>\<open>type\<close> gives
  exactly \<^verbatim>\<open>WHERE  "owner" = $1 AND  "type" = $2\<close> with the parameters \<^verbatim>\<open>['u1','dog']\<close>.
\<close>

theorem getFilters_examples:
  "getFilters (Inl [(''id'', JStr ''abc'')])
     = \<lparr> r_limit = Fin 1000, r_offset = Fin 0, r_sort = [],
         r_filter = ''WHERE  \"id\" = $1'', r_filterValues = [JStr ''abc''] \<rparr>
   \<and> getFilters (Inr [FilterLeaf None ''owner'' ''eq'' (JStr ''u1''),
                      FilterLeaf (Some AND) ''type'' ''eq'' (JStr ''dog'')])
     = \<lparr> r_limit = Fin 1000, r_offset = Fin 0, r_sort = [],
         r_filter = ''WHERE  \"owner\" = $1 AND  \"type\" = $2'',
         r_filterValues = [JStr ''u1'', JStr ''dog''] \<rparr>"
  by code_simp

theorem getFilters_examples_witness:
  "r_filterValues (getFilters (Inl [(''id'', JStr ''abc'')])) = [JStr ''abc'']"
  using getFilters_examples by simp

text \<open>The claim as written fails: the text with single spaces is not what is returned.\<close>

theorem getFilters_single_space_counterexample:
  "r_filter (getFilters (Inl [(''id'', JStr ''abc'')])) \<noteq> ''WHERE \"id\" = $1''"
  by code_simp

section \<open>The sort clause\<close>

text \<open>
  Claim C8 says that a dotted sort key is resolved as a filter's field path is: the table
  qualifier loses a trailing \<open>s\<close> and the field is snake-cased. \<^verbatim>\<open>manageFilters\<close> does
  strip the \<open>s\<close> of a filter's table, but the sort branch of \<^verbatim>\<open>createFilters\<close> quotes
  \<^verbatim>\<open>parts[0]\<close> as it is: sorting by \<^verbatim>\<open>pets.ownerName\<close> orders by \<^verbatim>\<open>"pets".owner_name\<close>,
  while filtering on the same path compares \<^verbatim>\<open>"pet"."owner_name"\<close>.
\<close>

theorem createFilters_sort_keeps_plural:
  "r_sort (createFilters \<lparr> filters = None,
       sort_spec = Some \<lparr> sort_key = ''pets.ownerName'', sort_order = ''ASC'' \<rparr>,
       limit = None, offset = None, freeText = None \<rparr> [] True 0)
     = ''ORDER BY \"pets\".owner_name ASC''
   \<and> manageFilters [FilterLeaf None ''pets.ownerName'' ''eq'' JNull]
     = [LeafToken (Some ''pet'') ''eq'' ''ownerName'' JNull]"
  by code_simp

section \<open>A leaf with an unrecognised operator\<close>

text \<open>
  Claim C4 says that a leaf whose operator is outside the recognised set leaves no clause
  text and no parameter value, and that the output is the compilation of the list without
  that node. The map callback does return \<^verbatim>\<open>undefined\<close> for the leaf token, which the
  filter then drops, but \<^verbatim>\<open>manageFilters\<close> has already pushed the node's
  \<^verbatim>\<open>conditionType\<close> as a token of its own, and that keyword stays: the two leaves
  \<^verbatim>\<open>owner eq 'u1'\<close> and \<^verbatim>\<open>AND type contains 'dog'\<close> compile to
  \<^verbatim>\<open>WHERE  "owner" = $1 AND\<close>, which is not the text of the list without the second leaf
  and is no valid SQL.
\<close>

theorem createFilters_dangling_condition:
  "r_filter (createFilters (only_filters
       [FilterLeaf None ''owner'' ''eq'' (JStr ''u1''),
        FilterLeaf (Some AND) ''type'' ''contains'' (JStr ''dog'')]) [] True 0)
     = ''WHERE  \"owner\" = $1 AND''
   \<and> r_filter (createFilters (only_filters
       [FilterLeaf None ''owner'' ''eq'' (JStr ''u1'')]) [] True 0)
     = ''WHERE  \"owner\" = $1''
   \<and> createFilters (only_filters
       [FilterLeaf None ''owner'' ''eq'' (JStr ''u1''),
        FilterLeaf (Some AND) ''type'' ''contains'' (JStr ''dog'')]) [] True 0
     \<noteq> createFilters (only_filters [FilterLeaf None ''owner'' ''eq'' (JStr ''u1'')]) [] True 0"
  by code_simp

section \<open>Numbers, digits and the placeholders of a text\<close>

text \<open>Below \<open>2 ^ 53\<close> the sum is exact and the text is the decimal text.\<close>

lemma bit_length_le: "bit_length v \<le> n \<longleftrightarrow> v < 2 ^ n"
proof (induction v arbitrary: n rule: bit_length.induct)
  case (1 v)
  show ?case
  proof (cases "v = 0")
    case True
    then show ?thesis by (simp add: bit_length.simps)
  next
    case False
    show ?thesis
    proof (cases n)
      case 0
      with False show ?thesis by (simp add: bit_length.simps [of v])
    next
      case (Suc m)
      have "bit_length v \<le> Suc m \<longleftrightarrow> bit_length (v div 2) \<le> m"
        using False by (simp add: bit_length.simps [of v])
      also have "\<dots> \<longleftrightarrow> v div 2 < 2 ^ m" using "1.IH" [OF False] .
      also have "\<dots> \<longleftrightarrow> v < 2 ^ Suc m" by auto
      finally show ?thesis using Suc by simp
    qed
  qed
qed

lemma round53_small: "v < 2 ^ 53 \<Longrightarrow> round53 v = v"
  by (simp add: round53_def bit_length_le)

lemma js_add_small: "a + b < 2 ^ 53 \<Longrightarrow> js_add a b = a + b"
  by (simp add: js_add_def round53_small)

lemma show_number_small: "x < 2 ^ 53 \<Longrightarrow> show_number x = show_nat x"
  by (simp add: show_number_def bit_length_le)

text \<open>The decimal text of a number reads back as the number.\<close>

lemma digit_facts:
  assumes "d < 10"
  shows "is_digit (digit d)" and "digit_value (digit d) = d" and "digit d \<noteq> CHR ''$''"
proof -
  from assms have "d \<in> {0, 1, 2, 3, 4, 5, 6, 7, 8, 9}" by auto
  then show "is_digit (digit d)" and "digit_value (digit d) = d" and "digit d \<noteq> CHR ''$''"
    by (auto simp: digit_def is_digit_def digit_value_def)
qed

lemma show_nat_digits: "list_all is_digit (show_nat n) \<and> show_nat n \<noteq> []"
proof (induction n rule: show_nat.induct)
  case (1 n)
  show ?case
  proof (cases "n < 10")
    case True
    then show ?thesis by (simp add: show_nat.simps [of n] digit_facts)
  next
    case False
    then show ?thesis using "1.IH" by (simp add: show_nat.simps [of n] digit_facts)
  qed
qed

lemma show_nat_value:
  "foldl (\<lambda>a c. 10 * a + digit_value c) 0 (show_nat n) = n"
proof (induction n rule: show_nat.induct)
  case (1 n)
  show ?case
  proof (cases "n < 10")
    case True
    then show ?thesis by (simp add: show_nat.simps [of n] digit_facts)
  next
    case False
    then show ?thesis using "1.IH" by (simp add: show_nat.simps [of n] digit_facts)
  qed
qed

text \<open>Reading a text: literal text without a dollar sign is skipped, a printed number is read back.\<close>

lemma is_digit_dollar [simp]: "\<not> is_digit CHR ''$''"
  by (simp add: is_digit_def)

lemma scan_skip: "CHR ''$'' \<notin> set a \<Longrightarrow> scan Idle (a @ b) = scan Idle b"
  by (induction a) auto

lemma scan_digits:
  "list_all is_digit ds
   \<Longrightarrow> scan (Digits a) (ds @ b) = scan (Digits (foldl (\<lambda>a c. 10 * a + digit_value c) a ds)) b"
  by (induction ds arbitrary: a) auto

lemma scan_dollar_digits:
  assumes "list_all is_digit ds" and "ds \<noteq> []"
  shows "scan Dollar (ds @ b) = scan (Digits (foldl (\<lambda>a c. 10 * a + digit_value c) 0 ds)) b"
proof -
  from assms obtain c cs where ds: "ds = c # cs" by (cases ds) auto
  with assms show ?thesis using scan_digits [of cs "digit_value c" b] by simp
qed

lemma scan_number_end:
  "b = [] \<or> \<not> is_digit (hd b) \<Longrightarrow> scan (Digits n) b = n # scan Idle b"
  by (cases b) auto

lemma scan_placeholder:
  assumes "b = [] \<or> \<not> is_digit (hd b)"
  shows "scan Idle (''$'' @ show_nat n @ b) = n # scan Idle b"
proof -
  have "scan Idle (''$'' @ show_nat n @ b) = scan Dollar (show_nat n @ b)" by simp
  also have "\<dots> = scan (Digits n) b"
    using scan_dollar_digits [of "show_nat n" b] show_nat_digits [of n] show_nat_value [of n]
    by simp
  also have "\<dots> = n # scan Idle b" using assms by (rule scan_number_end)
  finally show ?thesis .
qed

lemma scan_fragment:
  "readable f \<Longrightarrow> \<forall>n \<in> set (fragment_numbers f). n < 2 ^ 53
   \<Longrightarrow> b = [] \<or> \<not> is_digit (hd b)
   \<Longrightarrow> scan Idle (fragment_text f @ b) = fragment_numbers f @ scan Idle b"
proof (induction f rule: readable.induct)
  case 1
  then show ?case by (simp add: fragment_text_def fragment_numbers_def)
next
  case (2 s ps)
  then have "scan Idle (fragment_text ps @ b) = fragment_numbers ps @ scan Idle b"
    by (simp add: fragment_numbers_def)
  with 2 show ?case
    by (simp add: fragment_text_def fragment_numbers_def scan_skip)
next
  case (3 n)
  then have "n < 2 ^ 53" by (simp add: fragment_numbers_def)
  with 3 show ?case
    using scan_placeholder [of b n]
    by (simp add: fragment_text_def fragment_numbers_def show_number_small)
next
  case (4 n s ps)
  then have n: "n < 2 ^ 53" by (simp add: fragment_numbers_def)
  from 4 have ih: "scan Idle (fragment_text (Lit s # ps) @ b)
      = fragment_numbers (Lit s # ps) @ scan Idle b"
    by (simp add: fragment_numbers_def)
  have e: "fragment_text (Lit s # ps) @ b = [] \<or> \<not> is_digit (hd (fragment_text (Lit s # ps) @ b))"
    using 4 by (simp add: fragment_text_def)
  have "scan Idle (fragment_text (Placeholder n # Lit s # ps) @ b)
      = scan Idle (''$'' @ show_nat n @ (fragment_text (Lit s # ps) @ b))"
    using n by (simp add: fragment_text_def show_number_small)
  also have "\<dots> = n # scan Idle (fragment_text (Lit s # ps) @ b)"
    using e by (rule scan_placeholder)
  finally show ?case using ih by (simp add: fragment_numbers_def)
next
  case (5 n m ps)
  then show ?case by simp
qed

lemma scan_join:
  "\<forall>f \<in> set frags. readable f \<and> (\<forall>n \<in> set (fragment_numbers f). n < 2 ^ 53)
   \<Longrightarrow> scan Idle (join '' '' (map fragment_text frags)) = placeholder_numbers frags"
proof (induction frags rule: induct_list012)
  case 1
  then show ?case by (simp add: placeholder_numbers_def)
next
  case (2 f)
  then show ?case
    using scan_fragment [of f "[]"] by (simp add: placeholder_numbers_def)
next
  case (3 f g frags)
  have ih: "scan Idle (join '' '' (map fragment_text (g # frags))) = placeholder_numbers (g # frags)"
    using 3 by simp
  have "scan Idle (fragment_text f @ '' '' @ join '' '' (map fragment_text (g # frags)))
      = fragment_numbers f @ scan Idle ('' '' @ join '' '' (map fragment_text (g # frags)))"
    using 3(3) by (intro scan_fragment) (simp_all add: is_digit_def)
  also have "scan Idle ('' '' @ join '' '' (map fragment_text (g # frags)))
      = scan Idle (join '' '' (map fragment_text (g # frags)))"
    by (rule scan_skip) simp
  finally show ?case using ih by (simp add: placeholder_numbers_def)
qed

lemma placeholders_in_text:
  assumes "\<forall>f \<in> set frags. readable f \<and> (\<forall>n \<in> set (fragment_numbers f). n < 2 ^ 53)"
  shows "placeholders_in ((if iw then ''WHERE '' else []) @ join '' '' (map fragment_text frags))
       = placeholder_numbers frags"
proof -
  have "CHR ''$'' \<notin> set (if iw then ''WHERE '' else [])" by simp
  then show ?thesis
    unfolding placeholders_in_def using scan_join [OF assms] by (simp add: scan_skip)
qed

section \<open>Flattening and emission\<close>

text \<open>The reduction started from any accumulator appends to it what it gives from \<open>[]\<close>.\<close>

lemma manageFilters_reduce_acc:
  "manageFilters_reduce result nodes = result @ manageFilters_reduce [] nodes"
proof (induction nodes arbitrary: result)
  case Nil
  then show ?case by simp
next
  case (Cons n nodes)
  show ?case
  proof (cases n)
    case (FilterLeaf ct field operator v)
    show ?thesis
      using Cons.IH [of "push_conditionType ct result @ [leaf_token field operator v]"]
        Cons.IH [of "push_conditionType ct [] @ [leaf_token field operator v]"]
      by (simp add: FilterLeaf push_conditionType_def split: option.splits)
  next
    case (FilterGroup ct expressions)
    show ?thesis
      using Cons.IH [of "push_conditionType ct result @ [GroupingToken OpenGroup]
          @ manageFilters_reduce [] expressions @ [GroupingToken CloseGroup]"]
        Cons.IH [of "push_conditionType ct [] @ [GroupingToken OpenGroup]
          @ manageFilters_reduce [] expressions @ [GroupingToken CloseGroup]"]
      by (simp add: FilterGroup push_conditionType_def split: option.splits)
  qed
qed

lemma manageFilters_Nil: "manageFilters [] = []"
  by (simp add: manageFilters_def)

lemma manageFilters_Cons: "manageFilters (n # nodes) = node_tokens n @ manageFilters nodes"
proof (cases n)
  case (FilterLeaf ct field operator v)
  show ?thesis
    using manageFilters_reduce_acc [of "push_conditionType ct [] @ [leaf_token field operator v]" nodes]
    by (simp add: FilterLeaf manageFilters_def node_tokens_def)
next
  case (FilterGroup ct expressions)
  show ?thesis
    using manageFilters_reduce_acc [of "push_conditionType ct [] @ [GroupingToken OpenGroup]
          @ manageFilters_reduce [] expressions @ [GroupingToken CloseGroup]" nodes]
    by (simp add: FilterGroup manageFilters_def node_tokens_def)
qed

lemma manageFilters_append:
  "manageFilters (xs @ ys) = manageFilters xs @ manageFilters ys"
  by (induction xs) (simp_all add: manageFilters_Nil manageFilters_Cons)

lemma manageFilters_concat: "manageFilters nodes = concat (map node_tokens nodes)"
  by (induction nodes) (simp_all add: manageFilters_Nil manageFilters_Cons)

text \<open>No dollar sign is printed around a placeholder.\<close>

lemma set_join: "set (join sep xs) \<subseteq> set sep \<union> \<Union> (set ` set xs)"
  by (induction sep xs rule: join.induct) auto

lemma in_split: "p \<in> set (split c s) \<Longrightarrow> x \<in> set p \<Longrightarrow> x \<in> set s"
proof (induction s arbitrary: p)
  case Nil
  then show ?case by simp
next
  case (Cons a s)
  show ?case
  proof (cases "a = c")
    case True
    with Cons.prems have "p \<in> set (split c s)" by auto
    with Cons.IH Cons.prems(2) show ?thesis by auto
  next
    case False
    show ?thesis
    proof (cases "split c s")
      case Nil
      with False Cons.prems show ?thesis by auto
    next
      case (Cons q qs)
      with False Cons.prems have "p = a # q \<or> p \<in> set qs" by auto
      then show ?thesis
      proof
        assume "p = a # q"
        with Cons.prems(2) have "x = a \<or> x \<in> set q" by auto
        moreover have "q \<in> set (split c s)" using Cons by simp
        ultimately show ?thesis using Cons.IH by auto
      next
        assume "p \<in> set qs"
        then have "p \<in> set (split c s)" using Cons by simp
        with Cons.IH Cons.prems(2) show ?thesis by auto
      qed
    qed
  qed
qed

lemma set_split: "\<Union> (set ` set (split c s)) \<subseteq> set s"
  using in_split by fastforce

lemma set_strip_runs: "set (strip_runs b s) \<subseteq> {c. is_alnum c} \<union> {boundary}"
  by (induction b s rule: strip_runs.induct) auto

lemma lower_char_dollar: "is_alnum c \<Longrightarrow> lower_char c \<noteq> CHR ''$''"
  by (auto simp: lower_char_def is_alnum_def is_upper_def is_lower_def is_digit_def)

lemma snakeCase_no_dollar: "CHR ''$'' \<notin> set (snakeCase s)"
proof
  assume a: "CHR ''$'' \<in> set (snakeCase s)"
  define result where "result = strip_runs False (split_capitals (split_camel s))"
  define sliced where
    "sliced = rev (dropWhile (\<lambda>x. x = boundary) (rev (dropWhile (\<lambda>x. x = boundary) result)))"
  have sn: "snakeCase s = join ''_'' (map (map lower_char) (split boundary sliced))"
    by (simp add: snakeCase_def result_def sliced_def Let_def)
  have r: "set result \<subseteq> {c. is_alnum c} \<union> {boundary}"
    unfolding result_def by (rule set_strip_runs)
  have "set sliced \<subseteq> set result"
    unfolding sliced_def by (auto dest!: set_dropWhileD)
  with r have sl: "set sliced \<subseteq> {c. is_alnum c} \<union> {boundary}" by blast
  from a sn set_join [of "''_''" "map (map lower_char) (split boundary sliced)"]
  obtain p where p: "p \<in> set (split boundary sliced)" "CHR ''$'' \<in> lower_char ` set p"
    by auto
  then obtain c where c: "c \<in> set p" "lower_char c = CHR ''$''" by auto
  from p(1) c(1) set_split [of boundary sliced] have cs: "c \<in> set sliced" by auto
  show False
  proof (cases "is_alnum c")
    case True
    with c(2) show False by (simp add: lower_char_dollar)
  next
    case False
    with cs sl have "c = boundary" by auto
    with c(2) show False by (simp add: lower_char_def boundary_def)
  qed
qed

lemma operator_symbol_no_dollar:
  "map_of operatorToMysql operator = Some symbol \<Longrightarrow> CHR ''$'' \<notin> set symbol"
proof -
  assume "map_of operatorToMysql operator = Some symbol"
  then have "(operator, symbol) \<in> set operatorToMysql" by (rule map_of_SomeD)
  then show ?thesis by (auto simp: operatorToMysql_def)
qed

lemma recognised_lookup:
  "map_of operatorToMysql operator = Some symbol \<Longrightarrow> recognised operator"
  by (auto simp: recognised_def dest: map_of_SomeD intro: rev_image_eqI)

lemma emit_readable:
  assumes "plain_token tok" and "emit vo fv tok = (Some f, fv1)"
  shows "readable f"
proof (cases tok)
  case (ConditionToken c)
  with assms show ?thesis by (cases c) auto
next
  case (GroupingToken g)
  with assms show ?thesis by (cases g) auto
next
  case (LeafToken tb operator field v)
  define t where "t = (case tb of None \<Rightarrow> [] | Some x \<Rightarrow> if x \<noteq> [] then dq @ x @ dq @ ''.'' else [])"
  have rec: "recognised operator"
  proof (cases "operator = ''includes'' \<or> operator = ''excludes''")
    case True
    then show ?thesis by (auto simp: recognised_def)
  next
    case False
    with assms(2) LeafToken obtain symbol where "map_of operatorToMysql operator = Some symbol"
      by (cases "map_of operatorToMysql operator") (auto simp: Let_def)
    then show ?thesis by (rule recognised_lookup)
  qed
  have t: "CHR ''$'' \<notin> set t"
    using assms(1) LeafToken rec by (cases tb) (auto simp: t_def dq_def)
  note sn = snakeCase_no_dollar [of field]
  show ?thesis
  proof (cases "operator = ''includes'' \<or> operator = ''excludes''")
    case True
    with assms(2) LeafToken t sn show ?thesis
      by (auto simp: Let_def t_def [symmetric] dq_def is_digit_def)
  next
    case False
    with assms(2) LeafToken obtain symbol where s: "map_of operatorToMysql operator = Some symbol"
      by (cases "map_of operatorToMysql operator") (auto simp: Let_def)
    from s have "CHR ''$'' \<notin> set symbol" by (rule operator_symbol_no_dollar)
    with False s assms(2) LeafToken t sn show ?thesis
      by (auto simp: Let_def t_def [symmetric] dq_def)
  qed
qed

text \<open>Field paths without a dollar sign give tokens without one.\<close>

lemma set_hd_split: "set (hd (split c s)) \<subseteq> set s"
proof -
  have "split c s \<noteq> []" by (induction s) (auto split: list.splits)
  then have "hd (split c s) \<in> set (split c s)" by simp
  then show ?thesis using set_split [of c s] by auto
qed

lemma set_strip_plural: "set (strip_plural s) \<subseteq> set s"
  by (auto simp: strip_plural_def dest: in_set_butlastD)

lemma leaf_token_plain:
  "CHR ''$'' \<notin> set field \<Longrightarrow> plain_token (leaf_token field operator v)"
  using set_hd_split [of "CHR ''.''" field] set_strip_plural [of "hd (split CHR ''.'' field)"]
  by (auto simp: leaf_token_def Let_def)

lemma leaf_token_unrecognised:
  "\<not> recognised operator \<Longrightarrow> plain_token (leaf_token field operator v)"
  by (auto simp: leaf_token_def Let_def)

lemma push_conditionType_plain:
  "tok \<in> set (push_conditionType ct []) \<Longrightarrow> plain_token tok"
  by (auto simp: push_conditionType_def split: option.splits)

lemma node_tokens_plain:
  "\<forall>field \<in> set (node_fields n). CHR ''$'' \<notin> set field
   \<Longrightarrow> \<forall>tok \<in> set (node_tokens n). plain_token tok"
proof (induction n)
  case (FilterLeaf ct field operator v)
  then show ?case
    by (auto simp: node_tokens_def leaf_token_plain dest: push_conditionType_plain)
next
  case (FilterGroup ct expressions)
  have "\<forall>tok \<in> set (manageFilters expressions). plain_token tok"
    unfolding manageFilters_concat using FilterGroup by auto
  then show ?case
    by (auto simp: node_tokens_def dest: push_conditionType_plain)
qed

lemma manageFilters_plain:
  "\<forall>field \<in> set (concat (map node_fields nodes)). CHR ''$'' \<notin> set field
   \<Longrightarrow> \<forall>tok \<in> set (manageFilters nodes). plain_token tok"
  unfolding manageFilters_concat using node_tokens_plain by auto

lemma not_recognised_contains: "\<not> recognised ''contains''"
  by (simp add: recognised_def operatorToMysql_def)

lemma freeText_group_plain:
  "\<forall>tok \<in> set (manageFilters
      [FilterGroup ct (map (\<lambda>(index, field). FilterLeaf (c index) field ''contains'' v) xs)]).
     plain_token tok"
proof -
  have "\<forall>tok \<in> set (manageFilters
      (map (\<lambda>(index, field). FilterLeaf (c index) field ''contains'' v) xs)). plain_token tok"
    unfolding manageFilters_concat
    by (auto simp: node_tokens_def leaf_token_unrecognised [OF not_recognised_contains]
        dest: push_conditionType_plain)
  then show ?thesis
    by (auto simp: manageFilters_Cons manageFilters_Nil node_tokens_def
        dest: push_conditionType_plain)
qed

lemma cleanFilters_plain:
  assumes "\<forall>field \<in> set (leaf_fields data). CHR ''$'' \<notin> set field"
  shows "\<forall>tok \<in> set (cleanFilters data ftf). plain_token tok"
proof -
  define given where "given = (case filters data of None \<Rightarrow> [] | Some fs \<Rightarrow> fs)"
  have g: "\<forall>tok \<in> set (manageFilters given). plain_token tok"
    using assms unfolding leaf_fields_def given_def [symmetric] by (rule manageFilters_plain)
  show ?thesis
  proof (cases "freeText data")
    case None
    with g show ?thesis by (simp add: cleanFilters_def given_def)
  next
    case (Some ft)
    show ?thesis
    proof (cases "ft \<noteq> [] \<and> trim ft \<noteq> []")
      case False
      with g Some show ?thesis by (auto simp: cleanFilters_def given_def)
    next
      case True
      have "cleanFilters data ftf = manageFilters given @ manageFilters
          [FilterGroup (if length given \<noteq> 0 then Some AND else None)
             (map (\<lambda>(index, field).
                FilterLeaf (if index = 0 then None else Some OR) field ''contains'' (JStr ft))
                (enumerate 0 ftf))]"
        using True Some
        by (simp add: cleanFilters_def given_def [symmetric] manageFilters_append Let_def)
      with g freeText_group_plain
        [of "if length given \<noteq> 0 then Some AND else None"
            "\<lambda>index. if index = 0 then None else Some OR" "JStr ft" "enumerate 0 ftf"]
      show ?thesis by auto
    qed
  qed
qed

text \<open>What one token emits: no placeholder and no value, or one of each.\<close>

lemma filterFragments_compiled:
  "filterFragments data ftf vo = compiled vo (cleanFilters data ftf)"
  by (cases "cleanFilters data ftf")
     (simp_all add: filterFragments_def compiled_def Let_def split: prod.splits)

lemma emit_cases:
  assumes "emit vo fv tok = (out, fv1)"
  shows "(fv1 = fv \<and> (\<forall>f. out = Some f \<longrightarrow> fragment_numbers f = []))
       \<or> (\<exists>tb operator field v f. tok = LeafToken tb operator field v \<and> fv1 = fv @ [v]
             \<and> out = Some f \<and> fragment_numbers f = [js_add vo (Suc (length fv))])"
proof (cases tok)
  case (ConditionToken c)
  with assms show ?thesis by (auto simp: fragment_numbers_def)
next
  case (GroupingToken g)
  with assms show ?thesis by (auto simp: fragment_numbers_def)
next
  case (LeafToken tb operator field v)
  show ?thesis
  proof (cases "operator = ''includes'' \<or> operator = ''excludes''")
    case True
    with assms LeafToken show ?thesis
      by (auto simp: fragment_numbers_def Let_def)
  next
    case False
    with assms LeafToken show ?thesis
      by (cases "map_of operatorToMysql operator") (auto simp: fragment_numbers_def Let_def)
  qed
qed

lemma emit_values: "snd (emit vo fv tok) = snd (emit 0 fv tok)"
proof (cases tok)
  case (ConditionToken c)
  then show ?thesis by simp
next
  case (GroupingToken g)
  then show ?thesis by simp
next
  case (LeafToken tb operator field v)
  show ?thesis
  proof (cases "operator = ''includes'' \<or> operator = ''excludes''")
    case True
    with LeafToken show ?thesis by (auto simp: Let_def)
  next
    case False
    with LeafToken show ?thesis
      by (cases "map_of operatorToMysql operator") (auto simp: Let_def)
  qed
qed

lemma emit_all_values: "snd (emit_all vo fv toks) = snd (emit_all 0 fv toks)"
proof (induction toks arbitrary: fv)
  case Nil
  then show ?case by simp
next
  case (Cons tok toks)
  obtain out fv1 where e: "emit vo fv tok = (out, fv1)" by (cases "emit vo fv tok")
  obtain out0 fv0 where e0: "emit 0 fv tok = (out0, fv0)" by (cases "emit 0 fv tok")
  have eq: "fv1 = fv0" using emit_values [of vo fv tok] e e0 by simp
  obtain outs1 fv2 where r: "emit_all vo fv1 toks = (outs1, fv2)"
    by (cases "emit_all vo fv1 toks")
  obtain outs0 fv3 where r0: "emit_all 0 fv1 toks = (outs0, fv3)"
    by (cases "emit_all 0 fv1 toks")
  have "fv2 = fv3" using Cons.IH [of fv1] r r0 by simp
  then show ?case using e e0 eq r r0 by simp
qed

lemma emit_text_nonempty:
  assumes "emit vo fv tok = (Some f, fv1)"
  shows "fragment_text f \<noteq> []"
proof (cases tok)
  case (ConditionToken c)
  with assms show ?thesis by (cases c) (auto simp: fragment_text_def)
next
  case (GroupingToken g)
  with assms show ?thesis by (cases g) (auto simp: fragment_text_def)
next
  case (LeafToken tb operator field v)
  show ?thesis
  proof (cases "operator = ''includes'' \<or> operator = ''excludes''")
    case True
    with assms LeafToken show ?thesis
      by (auto simp: fragment_text_def Let_def)
  next
    case False
    with assms LeafToken show ?thesis
      by (cases "map_of operatorToMysql operator") (auto simp: fragment_text_def Let_def)
  qed
qed

lemma emit_all_length:
  "emit_all vo fv toks = (outs, fv') \<Longrightarrow> length outs = length toks"
  by (induction toks arbitrary: fv outs) (auto split: prod.splits)

lemma emit_all_extends:
  "emit_all vo fv toks = (outs, fv') \<Longrightarrow> \<exists>ext. fv' = fv @ ext"
proof (induction toks arbitrary: fv outs)
  case Nil
  then show ?case by simp
next
  case (Cons tok toks)
  obtain out fv1 where e: "emit vo fv tok = (out, fv1)" by (cases "emit vo fv tok")
  obtain outs1 where r: "emit_all vo fv1 toks = (outs1, fv')"
    using Cons.prems e by (auto split: prod.splits)
  from Cons.IH [OF r] obtain ext where "fv' = fv1 @ ext" by blast
  moreover from emit_cases [OF e] have "\<exists>x. fv1 = fv @ x" by auto
  ultimately show ?case by auto
qed

lemma emit_all_truthy:
  "emit_all vo fv toks = (outs, fv') \<Longrightarrow> truthy_fragments outs = present outs"
proof (induction toks arbitrary: fv outs)
  case Nil
  then show ?case by simp
next
  case (Cons tok toks)
  obtain out fv1 where e: "emit vo fv tok = (out, fv1)" by (cases "emit vo fv tok")
  obtain outs1 where r: "emit_all vo fv1 toks = (outs1, fv')" and o: "outs = out # outs1"
    using Cons.prems e by (auto split: prod.splits)
  show ?case
  proof (cases out)
    case None
    with o Cons.IH [OF r] show ?thesis by simp
  next
    case (Some f)
    with e have "fragment_text f \<noteq> []" using emit_text_nonempty by blast
    with o Some Cons.IH [OF r] show ?thesis by simp
  qed
qed

lemma emit_all_readable:
  "emit_all vo fv toks = (outs, fv') \<Longrightarrow> \<forall>tok \<in> set toks. plain_token tok
   \<Longrightarrow> \<forall>f. Some f \<in> set outs \<longrightarrow> readable f"
proof (induction toks arbitrary: fv outs)
  case Nil
  then show ?case by simp
next
  case (Cons tok toks)
  obtain out fv1 where e: "emit vo fv tok = (out, fv1)" by (cases "emit vo fv tok")
  obtain outs1 where r: "emit_all vo fv1 toks = (outs1, fv')" and o: "outs = out # outs1"
    using Cons.prems(1) e by (auto split: prod.splits)
  have "\<forall>f. Some f \<in> set outs1 \<longrightarrow> readable f"
    using Cons.IH [OF r] Cons.prems(2) by simp
  moreover have "out = Some f \<Longrightarrow> readable f" for f
    using emit_readable [of tok vo fv f fv1] e Cons.prems(2) by simp
  ultimately show ?case using o by auto
qed

lemma emit_all_numbers:
  "emit_all vo fv toks = (outs, fv') \<Longrightarrow> vo + length fv' < 2 ^ 53
   \<Longrightarrow> placeholder_numbers (present outs) = map (\<lambda>k. vo + k) [Suc (length fv) ..< Suc (length fv')]"
proof (induction toks arbitrary: fv outs)
  case Nil
  then show ?case by (simp add: placeholder_numbers_def)
next
  case (Cons tok toks)
  obtain out fv1 where e: "emit vo fv tok = (out, fv1)" by (cases "emit vo fv tok")
  obtain outs1 where r: "emit_all vo fv1 toks = (outs1, fv')" and o: "outs = out # outs1"
    using Cons.prems(1) e by (auto split: prod.splits)
  note ih = Cons.IH [OF r Cons.prems(2)]
  from emit_all_extends [OF r] obtain ext where x: "fv' = fv1 @ ext" by blast
  from emit_cases [OF e] show ?case
  proof
    assume a: "fv1 = fv \<and> (\<forall>f. out = Some f \<longrightarrow> fragment_numbers f = [])"
    then have "placeholder_numbers (present (out # outs1)) = placeholder_numbers (present outs1)"
      by (cases out) (simp_all add: placeholder_numbers_def)
    with a ih o show ?thesis by simp
  next
    assume "\<exists>tb operator field v f. tok = LeafToken tb operator field v \<and> fv1 = fv @ [v]
             \<and> out = Some f \<and> fragment_numbers f = [js_add vo (Suc (length fv))]"
    then obtain v f where a: "fv1 = fv @ [v]" "out = Some f"
        "fragment_numbers f = [js_add vo (Suc (length fv))]"
      by blast
    have "vo + Suc (length fv) < 2 ^ 53" using a x Cons.prems(2) by simp
    then have j: "js_add vo (Suc (length fv)) = vo + Suc (length fv)" by (rule js_add_small)
    have lt: "Suc (length fv) < Suc (length fv')" using a x by simp
    have u: "[Suc (length fv) ..< Suc (length fv')]
        = Suc (length fv) # [Suc (Suc (length fv)) ..< Suc (length fv')]"
      using lt by (rule upt_conv_Cons)
    have "placeholder_numbers (present outs)
        = (vo + Suc (length fv)) # placeholder_numbers (present outs1)"
      using o a j by (simp add: placeholder_numbers_def)
    also have "\<dots> = (vo + Suc (length fv)) # map (\<lambda>k. vo + k) [Suc (Suc (length fv)) ..< Suc (length fv')]"
      using ih a by simp
    also have "\<dots> = map (\<lambda>k. vo + k) [Suc (length fv) ..< Suc (length fv')]"
      unfolding u by simp
    finally show ?thesis .
  qed
qed

lemma emit_all_binding:
  "emit_all vo fv toks = (outs, fv') \<Longrightarrow> vo + length fv' < 2 ^ 53 \<Longrightarrow> j < length toks
   \<Longrightarrow> outs ! j = Some f \<Longrightarrow> i \<in> set (fragment_numbers f)
   \<Longrightarrow> vo + length fv < i \<and> i \<le> vo + length fv'
       \<and> (\<exists>tb operator field. toks ! j = LeafToken tb operator field (fv' ! (i - 1 - vo)))"
proof (induction toks arbitrary: fv outs j)
  case Nil
  then show ?case by simp
next
  case (Cons tok toks)
  obtain out fv1 where e: "emit vo fv tok = (out, fv1)" by (cases "emit vo fv tok")
  obtain outs1 where r: "emit_all vo fv1 toks = (outs1, fv')" and o: "outs = out # outs1"
    using Cons.prems(1) e by (auto split: prod.splits)
  from emit_all_extends [OF r] obtain ext where x: "fv' = fv1 @ ext" by blast
  from emit_cases [OF e] have le: "length fv \<le> length fv1" by auto
  show ?case
  proof (cases j)
    case 0
    with Cons.prems(4) o have out: "out = Some f" by simp
    from emit_cases [OF e] out Cons.prems(5) obtain tb operator field v where
      a: "tok = LeafToken tb operator field v" "fv1 = fv @ [v]"
         "i = js_add vo (Suc (length fv))"
      by auto
    have "vo + Suc (length fv) < 2 ^ 53" using a x Cons.prems(2) by simp
    then have "js_add vo (Suc (length fv)) = vo + Suc (length fv)" by (rule js_add_small)
    with a have i: "i = vo + Suc (length fv)" by simp
    have "i - 1 - vo = length fv" using i by simp
    then have "fv' ! (i - 1 - vo) = v" using a(2) x by simp
    with a(1) x 0 i a(2) show ?thesis by auto
  next
    case (Suc j')
    with Cons.prems o have p: "j' < length toks" "outs1 ! j' = Some f" by simp_all
    from Cons.IH [OF r Cons.prems(2) p Cons.prems(5)] le Suc show ?thesis by auto
  qed
qed

lemma present_Some: "map Some (present outs) = filter (\<lambda>out. out \<noteq> None) outs"
  by (induction outs rule: present.induct) simp_all

lemma present_set: "f \<in> set (present outs) \<longleftrightarrow> Some f \<in> set outs"
  by (induction outs rule: present.induct) auto

lemma compiled_present:
  "compiled vo toks = (present (fst (emit_all vo [] toks)), snd (emit_all vo [] toks))"
  using emit_all_truthy [of vo "[]" toks] by (cases "emit_all vo [] toks") (simp add: compiled_def)

lemma fragment_numbers_subset:
  "f \<in> set frags \<Longrightarrow> set (fragment_numbers f) \<subseteq> set (placeholder_numbers frags)"
  by (auto simp: placeholder_numbers_def)

lemma createFilters_fragments:
  assumes "emit_all vo [] (cleanFilters data ftf) = (outs, vals)"
  shows "r_filterValues (createFilters data ftf iw vo) = vals"
    and "r_filter (createFilters data ftf iw vo)
         = (if present outs = [] then []
            else (if iw then ''WHERE '' else []) @ join '' '' (map fragment_text (present outs)))"
  using assms by (simp_all add: createFilters_def filterFragments_compiled compiled_present)

lemma createFilters_values_offset:
  "r_filterValues (createFilters data ftf iw vo) = r_filterValues (createFilters data ftf iw 0)"
  using emit_all_values [of vo "[]" "cleanFilters data ftf"]
  by (simp add: createFilters_def filterFragments_compiled compiled_def split: prod.splits)

lemma createFilters_text_numbers:
  assumes plain: "\<forall>field \<in> set (leaf_fields data). CHR ''$'' \<notin> set field"
    and bound: "vo + length (r_filterValues (createFilters data ftf iw vo)) < 2 ^ 53"
  shows "placeholders_in (r_filter (createFilters data ftf iw vo))
       = map (\<lambda>k. vo + k) [1 ..< Suc (length (r_filterValues (createFilters data ftf iw vo)))]"
proof -
  obtain outs vals where e: "emit_all vo [] (cleanFilters data ftf) = (outs, vals)"
    by (cases "emit_all vo [] (cleanFilters data ftf)")
  note c = createFilters_fragments [OF e, of iw]
  have b: "vo + length vals < 2 ^ 53" using bound c(1) by simp
  have n: "placeholder_numbers (present outs) = map (\<lambda>k. vo + k) [1 ..< Suc (length vals)]"
    using emit_all_numbers [OF e] b by simp
  have r: "\<forall>f \<in> set (present outs). readable f"
    using emit_all_readable [OF e cleanFilters_plain [OF plain]] by (simp add: present_set)
  have s: "\<forall>f \<in> set (present outs). \<forall>k \<in> set (fragment_numbers f). k < 2 ^ 53"
  proof (intro ballI)
    fix f k
    assume "f \<in> set (present outs)" and "k \<in> set (fragment_numbers f)"
    then have "k \<in> set (placeholder_numbers (present outs))"
      using fragment_numbers_subset by blast
    then show "k < 2 ^ 53" unfolding n using b by auto
  qed
  have t: "placeholders_in ((if iw then ''WHERE '' else []) @ join '' '' (map fragment_text (present outs)))
      = placeholder_numbers (present outs)"
    using r s by (intro placeholders_in_text) simp
  show ?thesis
  proof (cases "present outs = []")
    case True
    then show ?thesis
      using n by (simp add: c placeholders_in_def placeholder_numbers_def)
  next
    case False
    then show ?thesis using t n by (simp add: c)
  qed
qed

section \<open>Placeholders and parameter values\<close>

text \<open>
  Claim C1, as amended. Take a BulkFilter whose leaf field paths hold no \<open>$\<close> and a
  \<^verbatim>\<open>valueOffset\<close> such that \<open>valueOffset + length filterValues\<close> is below \<open>2 ^ 53\<close>.
  Then the placeholder tokens of the returned filter text, read from left to right, are
  numbered \<open>valueOffset + 1\<close>, \<open>valueOffset + 2\<close>, ..., \<open>valueOffset + length
  filterValues\<close>: exactly as many as parameter values, 1-based and contiguous in
  emission order. The text is the emitted fragments joined by spaces, and a placeholder
  numbered \<open>i\<close> stands in the fragment of a leaf whose value is
  \<open>filterValues ! (i - 1 - valueOffset)\<close>. The placeholder numbers of the text for the
  offset are those of the text for offset 0, each raised by the offset, and the parameter
  values are the same for every offset.
\<close>

theorem createFilters_placeholders:
  "(\<forall>field \<in> set (leaf_fields data). CHR ''$'' \<notin> set field)
   \<and> valueOffset + length (r_filterValues (createFilters data freeTextFields includeWhere valueOffset))
       < 2 ^ 53
   \<longrightarrow>
     placeholders_in (r_filter (createFilters data freeTextFields includeWhere valueOffset))
       = map (\<lambda>k. valueOffset + k)
           [1 ..< Suc (length (r_filterValues
                    (createFilters data freeTextFields includeWhere valueOffset)))]
     \<and> (case emit_all valueOffset [] (cleanFilters data freeTextFields) of
          (outs, vals) \<Rightarrow>
            r_filterValues (createFilters data freeTextFields includeWhere valueOffset) = vals
            \<and> r_filter (createFilters data freeTextFields includeWhere valueOffset)
                = (if present outs = [] then []
                   else (if includeWhere then ''WHERE '' else [])
                          @ join '' '' (map fragment_text (present outs)))
            \<and> (\<forall>j < length outs. \<forall>f i.
                  outs ! j = Some f \<and> i \<in> set (placeholders_in (fragment_text f)) \<longrightarrow>
                    valueOffset < i \<and> i \<le> valueOffset + length vals
                    \<and> (\<exists>tb operator field.
                          cleanFilters data freeTextFields ! j
                            = LeafToken tb operator field (vals ! (i - 1 - valueOffset)))))
     \<and> placeholders_in (r_filter (createFilters data freeTextFields includeWhere valueOffset))
         = map (\<lambda>i. i + valueOffset)
             (placeholders_in (r_filter (createFilters data freeTextFields includeWhere 0)))
     \<and> r_filterValues (createFilters data freeTextFields includeWhere valueOffset)
         = r_filterValues (createFilters data freeTextFields includeWhere 0)"
proof
  assume h: "(\<forall>field \<in> set (leaf_fields data). CHR ''$'' \<notin> set field)
   \<and> valueOffset + length (r_filterValues (createFilters data freeTextFields includeWhere valueOffset))
       < 2 ^ 53"
  then have plain: "\<forall>field \<in> set (leaf_fields data). CHR ''$'' \<notin> set field"
    and bound: "valueOffset
        + length (r_filterValues (createFilters data freeTextFields includeWhere valueOffset)) < 2 ^ 53"
    by simp_all
  let ?toks = "cleanFilters data freeTextFields"
  let ?n = "length (r_filterValues (createFilters data freeTextFields includeWhere valueOffset))"
  obtain outs vals where e: "emit_all valueOffset [] ?toks = (outs, vals)"
    by (cases "emit_all valueOffset [] ?toks")
  note c = createFilters_fragments [OF e, of includeWhere]
  have b: "valueOffset + length vals < 2 ^ 53" using bound c(1) by simp
  have len: "length outs = length ?toks" using e by (rule emit_all_length)
  have p1: "placeholders_in (r_filter (createFilters data freeTextFields includeWhere valueOffset))
       = map (\<lambda>k. valueOffset + k) [1 ..< Suc ?n]"
    using plain bound by (rule createFilters_text_numbers)
  have rd: "\<forall>f. Some f \<in> set outs \<longrightarrow> readable f"
    using emit_all_readable [OF e cleanFilters_plain [OF plain]] .
  have bind: "\<forall>j < length outs. \<forall>f i.
                  outs ! j = Some f \<and> i \<in> set (placeholders_in (fragment_text f)) \<longrightarrow>
                    valueOffset < i \<and> i \<le> valueOffset + length vals
                    \<and> (\<exists>tb operator field.
                          ?toks ! j = LeafToken tb operator field (vals ! (i - 1 - valueOffset)))"
  proof (intro allI impI)
    fix j f i
    assume j: "j < length outs"
      and a: "outs ! j = Some f \<and> i \<in> set (placeholders_in (fragment_text f))"
    then have o: "outs ! j = Some f" and i: "i \<in> set (placeholders_in (fragment_text f))"
      by simp_all
    from j o have m: "Some f \<in> set outs" by (metis nth_mem)
    with rd have r: "readable f" by simp
    have k: "\<forall>k \<in> set (fragment_numbers f). k < 2 ^ 53"
    proof
      fix k
      assume "k \<in> set (fragment_numbers f)"
      from emit_all_binding [OF e b _ o this] j len have "k \<le> valueOffset + length vals"
        by simp
      with b show "k < 2 ^ 53" by simp
    qed
    have "placeholders_in (fragment_text f) = fragment_numbers f"
      unfolding placeholders_in_def using scan_fragment [OF r k, of "[]"] by simp
    with i have "i \<in> set (fragment_numbers f)" by simp
    from emit_all_binding [OF e b _ o this] j len
    show "valueOffset < i \<and> i \<le> valueOffset + length vals
          \<and> (\<exists>tb operator field.
                ?toks ! j = LeafToken tb operator field (vals ! (i - 1 - valueOffset)))"
      by simp
  qed
  have p2: "(case emit_all valueOffset [] ?toks of
          (outs, vals) \<Rightarrow>
            r_filterValues (createFilters data freeTextFields includeWhere valueOffset) = vals
            \<and> r_filter (createFilters data freeTextFields includeWhere valueOffset)
                = (if present outs = [] then []
                   else (if includeWhere then ''WHERE '' else [])
                          @ join '' '' (map fragment_text (present outs)))
            \<and> (\<forall>j < length outs. \<forall>f i.
                  outs ! j = Some f \<and> i \<in> set (placeholders_in (fragment_text f)) \<longrightarrow>
                    valueOffset < i \<and> i \<le> valueOffset + length vals
                    \<and> (\<exists>tb operator field.
                          ?toks ! j = LeafToken tb operator field (vals ! (i - 1 - valueOffset)))))"
    unfolding e prod.case using c bind by (intro conjI)
  have v: "r_filterValues (createFilters data freeTextFields includeWhere valueOffset)
         = r_filterValues (createFilters data freeTextFields includeWhere 0)"
    by (rule createFilters_values_offset)
  have bound0: "0 + length (r_filterValues (createFilters data freeTextFields includeWhere 0)) < 2 ^ 53"
    using bound v by simp
  have z: "placeholders_in (r_filter (createFilters data freeTextFields includeWhere 0))
       = map (\<lambda>k. 0 + k) [1 ..< Suc ?n]"
    using createFilters_text_numbers [OF plain bound0] v by simp
  have p3: "placeholders_in (r_filter (createFilters data freeTextFields includeWhere valueOffset))
         = map (\<lambda>i. i + valueOffset)
             (placeholders_in (r_filter (createFilters data freeTextFields includeWhere 0)))"
    unfolding p1 z by (simp add: add.commute)
  show "placeholders_in (r_filter (createFilters data freeTextFields includeWhere valueOffset))
       = map (\<lambda>k. valueOffset + k)
           [1 ..< Suc (length (r_filterValues
                    (createFilters data freeTextFields includeWhere valueOffset)))]
     \<and> (case emit_all valueOffset [] (cleanFilters data freeTextFields) of
          (outs, vals) \<Rightarrow>
            r_filterValues (createFilters data freeTextFields includeWhere valueOffset) = vals
            \<and> r_filter (createFilters data freeTextFields includeWhere valueOffset)
                = (if present outs = [] then []
                   else (if includeWhere then ''WHERE '' else [])
                          @ join '' '' (map fragment_text (present outs)))
            \<and> (\<forall>j < length outs. \<forall>f i.
                  outs ! j = Some f \<and> i \<in> set (placeholders_in (fragment_text f)) \<longrightarrow>
                    valueOffset < i \<and> i \<le> valueOffset + length vals
                    \<and> (\<exists>tb operator field.
                          cleanFilters data freeTextFields ! j
                            = LeafToken tb operator field (vals ! (i - 1 - valueOffset)))))
     \<and> placeholders_in (r_filter (createFilters data freeTextFields includeWhere valueOffset))
         = map (\<lambda>i. i + valueOffset)
             (placeholders_in (r_filter (createFilters data freeTextFields includeWhere 0)))
     \<and> r_filterValues (createFilters data freeTextFields includeWhere valueOffset)
         = r_filterValues (createFilters data freeTextFields includeWhere 0)"
    by (rule conjI [OF p1 conjI [OF p2 conjI [OF p3 v]]])
qed

theorem createFilters_placeholders_witness:
  "leaf_fields (only_filters
       [FilterLeaf None ''owner'' ''eq'' (JStr ''u1''),
        FilterLeaf (Some AND) ''pets.tags'' ''includes'' (JStr ''x'')])
     = [''owner'', ''pets.tags'']
   \<and> (8::nat) + length (r_filterValues (createFilters (only_filters
       [FilterLeaf None ''owner'' ''eq'' (JStr ''u1''),
        FilterLeaf (Some AND) ''pets.tags'' ''includes'' (JStr ''x'')]) [] True 8)) < 2 ^ 53
   \<and> r_filter (createFilters (only_filters
       [FilterLeaf None ''owner'' ''eq'' (JStr ''u1''),
        FilterLeaf (Some AND) ''pets.tags'' ''includes'' (JStr ''x'')]) [] True 8)
     = ''WHERE  \"owner\" = $9 AND  $10 = ANY (\"pet\".\"tags\")''
   \<and> placeholders_in (r_filter (createFilters (only_filters
       [FilterLeaf None ''owner'' ''eq'' (JStr ''u1''),
        FilterLeaf (Some AND) ''pets.tags'' ''includes'' (JStr ''x'')]) [] True 8))
     = [9, 10]
   \<and> (\<exists>tb operator field. cleanFilters (only_filters
       [FilterLeaf None ''owner'' ''eq'' (JStr ''u1''),
        FilterLeaf (Some AND) ''pets.tags'' ''includes'' (JStr ''x'')]) [] ! 2
     = LeafToken tb operator field ([JStr ''u1'', JStr ''x''] ! (10 - 1 - 8)))"
proof -
  let ?data = "only_filters
       [FilterLeaf None ''owner'' ''eq'' (JStr ''u1''),
        FilterLeaf (Some AND) ''pets.tags'' ''includes'' (JStr ''x'')]"
  let ?f = "[Lit [], Lit '' '', Placeholder 10, Lit '' '', Lit ''='', Lit '' ANY ('',
             Lit ''\"pet\".'', Lit ''\"'', Lit ''tags'', Lit ''\"'', Lit '')'']"
  let ?outs = "[Some [Lit [], Lit '' '', Lit ''\"owner\"'', Lit '' '', Lit ''='', Lit '' '',
                      Placeholder 9],
                Some [Lit ''AND''], Some ?f]"
  have lf: "leaf_fields ?data = [''owner'', ''pets.tags'']"
    by (simp add: leaf_fields_def only_filters_def)
  have plain: "\<forall>field \<in> set (leaf_fields ?data). CHR ''$'' \<notin> set field"
    unfolding lf by simp
  have vals: "r_filterValues (createFilters ?data [] True 8) = [JStr ''u1'', JStr ''x'']"
    by code_simp
  have bound: "8 + length (r_filterValues (createFilters ?data [] True 8)) < 2 ^ 53"
    unfolding vals by simp
  have tx: "r_filter (createFilters ?data [] True 8)
      = ''WHERE  \"owner\" = $9 AND  $10 = ANY (\"pet\".\"tags\")''"
    by code_simp
  have e: "emit_all 8 [] (cleanFilters ?data []) = (?outs, [JStr ''u1'', JStr ''x''])"
    by code_simp
  have r: "placeholders_in (fragment_text ?f) = [10]"
    by code_simp
  note t = createFilters_placeholders [where data = ?data and freeTextFields = "[]"
      and valueOffset = 8 and includeWhere = True, THEN mp, OF conjI [OF plain bound]]
  have n: "placeholders_in (r_filter (createFilters ?data [] True 8)) = [9, 10]"
    using t [THEN conjunct1] unfolding vals by (simp add: upt_rec)
  note b = t [THEN conjunct2, THEN conjunct1, unfolded e prod.case, THEN conjunct2,
      THEN conjunct2]
  have "\<exists>tb operator field. cleanFilters ?data [] ! 2
      = LeafToken tb operator field ([JStr ''u1'', JStr ''x''] ! (10 - 1 - 8))"
    using b [rule_format, of 2 ?f 10] r by simp
  with lf bound tx n show ?thesis by simp
qed

text \<open>
  The claim as written fails on the text: a field path is copied into the text as it
  is, so the table qualifier \<^verbatim>\<open>a" = $2 OR "b\<close> puts a second placeholder token into a
  text that has one parameter value.
\<close>

theorem createFilters_injected_placeholder_counterexample:
  "r_filter (createFilters (only_filters
       [FilterLeaf None ''a\" = $2 OR \"b.x'' ''eq'' (JStr ''v'')]) [] True 0)
     = ''WHERE  \"a\" = $2 OR \"b\".\"x\" = $1''
   \<and> r_filterValues (createFilters (only_filters
       [FilterLeaf None ''a\" = $2 OR \"b.x'' ''eq'' (JStr ''v'')]) [] True 0)
     = [JStr ''v'']
   \<and> placeholders_in (r_filter (createFilters (only_filters
       [FilterLeaf None ''a\" = $2 OR \"b.x'' ''eq'' (JStr ''v'')]) [] True 0))
     = [2, 1]"
  by code_simp

text \<open>
  At the offset \<open>2 ^ 53\<close> the sums are rounded: \<open>2 ^ 53 + 1\<close> is no double, and the
  two placeholders of two leaves are numbered \<open>2 ^ 53\<close> and \<open>2 ^ 53 + 2\<close>.
\<close>

lemma shortest_from_numeral:
  "shortest_from x (numeral k) =
     (let p = 10 ^ numeral k;
          lo = x div p;
          hi = lo + 1;
          ok_lo = (round53 (lo * p) = x);
          ok_hi = (round53 (hi * p) = x)
      in if ok_lo \<and> ok_hi then
           (if x - lo * p < hi * p - x then (lo, numeral k)
            else if hi * p - x < x - lo * p then (hi, numeral k)
            else if even lo then (lo, numeral k) else (hi, numeral k))
         else if ok_lo then (lo, numeral k)
         else if ok_hi then (hi, numeral k)
         else shortest_from x (pred_numeral k))"
  by (simp add: numeral_eq_Suc Let_def)

lemma bit_length_at_2_53: "bit_length 9007199254740993 = 54" "bit_length 9007199254740994 = 54"
  "bit_length 9007199254740992 = 54"
  by (simp_all add: bit_length.simps)

lemma js_add_2_53_1: "js_add 9007199254740992 (Suc 0) = 9007199254740992"
  by (simp add: js_add_def round53_def bit_length_at_2_53 Let_def)

lemma js_add_2_53_2: "js_add 9007199254740992 (Suc (Suc 0)) = 9007199254740994"
  by (simp add: js_add_def round53_def bit_length_at_2_53 Let_def)

lemma show_number_2_53: "show_number 9007199254740992 = ''9007199254740992''"
  by (simp add: show_number_def bit_length.simps show_nat.simps digit_def
      shortest_from_numeral round53_def Let_def)

lemma show_number_2_53_2: "show_number 9007199254740994 = ''9007199254740994''"
  by (simp add: show_number_def bit_length.simps show_nat.simps digit_def
      shortest_from_numeral round53_def Let_def)

lemma createFilters_text_at_2_53: "r_filter (createFilters (only_filters
       [FilterLeaf None ''a'' ''eq'' (JStr ''v''),
        FilterLeaf (Some AND) ''b'' ''eq'' (JStr ''w'')]) [] True 9007199254740992)
     = ''WHERE  \"a\" = $9007199254740992 AND  \"b\" = $9007199254740994''"
proof -
  have s: "snakeCase ''a'' = ''a''" "snakeCase ''b'' = ''b''" by code_simp+
  show ?thesis
    by (simp add: createFilters_def filterFragments_def cleanFilters_def only_filters_def
      manageFilters_def push_conditionType_def leaf_token_def Let_def s js_add_2_53_1 js_add_2_53_2 show_number_2_53 show_number_2_53_2
      fragment_text_def operatorToMysql_def dq_def)
qed

lemma placeholders_at_2_53: "placeholders_in ''WHERE  \"a\" = $9007199254740992 AND  \"b\" = $9007199254740994''
   = [9007199254740992, 9007199254740994]"
  by (simp add: placeholders_in_def is_digit_def digit_value_def)

section \<open>Single-row insert\<close>

lemma get_prop_distinct:
  "distinct (map fst r) \<Longrightarrow> \<forall>e \<in> set r. get_prop r (fst e) = snd e"
  by (auto simp: get_prop_def)

lemma filter_keys_entries:
  "\<forall>e \<in> set xs. get_prop r (fst e) = snd e
   \<Longrightarrow> filter (\<lambda>k. P (get_prop r k)) (map fst xs) = map fst (filter (\<lambda>e. P (snd e)) xs)"
  by (induction xs) auto

lemma map_get_prop_entries:
  "\<forall>e \<in> set xs. get_prop r (fst e) = snd e
   \<Longrightarrow> map (\<lambda>k. get_prop r k) (map fst xs) = map snd xs"
  by (induction xs) auto

lemma count_marks:
  "length (filter (\<lambda>c. c = CHR ''?'') (join '','' (map (\<lambda>k. ''?'') ks))) = length ks"
  by (induction ks rule: induct_list012) simp_all

lemma createInsert_entries:
  assumes "distinct (keys_of data)"
  shows "createInsert data offs =
     (dq @ join (dq @ '','' @ dq) (map (\<lambda>e. snakeCase (fst e)) (filter (\<lambda>e. snd e \<noteq> JUndefined) data)) @ dq,
      join '','' (map (\<lambda>e. ''?'') (filter (\<lambda>e. snd e \<noteq> JUndefined) data)),
      map snd (filter (\<lambda>e. snd e \<noteq> JUndefined) data))"
proof -
  let ?kept = "filter (\<lambda>e. snd e \<noteq> JUndefined) data"
  have d: "distinct (map fst data)" using assms by (simp add: keys_of_def)
  have g: "\<forall>e \<in> set data. get_prop data (fst e) = snd e"
    using d by (rule get_prop_distinct)
  have keys: "filter (\<lambda>k. get_prop data k \<noteq> JUndefined) (keys_of data) = map fst ?kept"
    unfolding keys_of_def using g by (rule filter_keys_entries)
  have g': "\<forall>e \<in> set ?kept. get_prop data (fst e) = snd e"
    using g by simp
  have vals: "map (\<lambda>k. get_prop data k) (map fst ?kept) = map snd ?kept"
    using g' by (rule map_get_prop_entries)
  show ?thesis
    unfolding createInsert_def keys Let_def vals
    by (simp add: comp_def)
qed

text \<open>
  Claim C6. For every single-row insert mapping, \<^verbatim>\<open>createInsert\<close> drops every key whose
  value is \<^verbatim>\<open>undefined\<close>, prints the snake-cased remaining keys, quoted and separated by
  commas, in their original order, emits one \<^verbatim>\<open>?\<close> per remaining key, and returns the
  remaining values in the order of the column list. In particular
  \<^verbatim>\<open>{name:'Bob', type:'dog', owner: undefined}\<close> gives the column list
  \<^verbatim>\<open>"name","type"\<close>, the two placeholders \<^verbatim>\<open>?,?\<close> and the values \<^verbatim>\<open>['Bob','dog']\<close>.
\<close>

theorem createInsert_drops_unset:
  "(distinct (keys_of data) \<longrightarrow>
     createInsert data offs =
       (dq @ join (dq @ '','' @ dq)
               (map (\<lambda>(k, v). snakeCase k) (filter (\<lambda>(k, v). v \<noteq> JUndefined) data)) @ dq,
        join '','' (map (\<lambda>(k, v). ''?'') (filter (\<lambda>(k, v). v \<noteq> JUndefined) data)),
        map snd (filter (\<lambda>(k, v). v \<noteq> JUndefined) data))
     \<and> length (filter (\<lambda>c. c = CHR ''?'') (fst (snd (createInsert data offs))))
         = length (filter (\<lambda>(k, v). v \<noteq> JUndefined) data))
   \<and> createInsert [(''name'', JStr ''Bob''), (''type'', JStr ''dog''), (''owner'', JUndefined)] offs
       = (''\"name\",\"type\"'', ''?,?'', [JStr ''Bob'', JStr ''dog''])"
proof
  show "distinct (keys_of data) \<longrightarrow>
     createInsert data offs =
       (dq @ join (dq @ '','' @ dq)
               (map (\<lambda>(k, v). snakeCase k) (filter (\<lambda>(k, v). v \<noteq> JUndefined) data)) @ dq,
        join '','' (map (\<lambda>(k, v). ''?'') (filter (\<lambda>(k, v). v \<noteq> JUndefined) data)),
        map snd (filter (\<lambda>(k, v). v \<noteq> JUndefined) data))
     \<and> length (filter (\<lambda>c. c = CHR ''?'') (fst (snd (createInsert data offs))))
         = length (filter (\<lambda>(k, v). v \<noteq> JUndefined) data)"
  proof
    assume a: "distinct (keys_of data)"
    have m: "map (\<lambda>(k, v). ''?'') xs = map (\<lambda>k. ''?'') (map fst xs)" for xs :: jsrecord
      by (induction xs) auto
    have c: "(\<lambda>(k, v). v \<noteq> JUndefined) = (\<lambda>e. snd e \<noteq> JUndefined)"
      "(\<lambda>(k :: string, v :: jsvalue). snakeCase k) = (\<lambda>e. snakeCase (fst e))"
      by (auto simp: fun_eq_iff)
    show "createInsert data offs =
       (dq @ join (dq @ '','' @ dq)
               (map (\<lambda>(k, v). snakeCase k) (filter (\<lambda>(k, v). v \<noteq> JUndefined) data)) @ dq,
        join '','' (map (\<lambda>(k, v). ''?'') (filter (\<lambda>(k, v). v \<noteq> JUndefined) data)),
        map snd (filter (\<lambda>(k, v). v \<noteq> JUndefined) data))
     \<and> length (filter (\<lambda>c. c = CHR ''?'') (fst (snd (createInsert data offs))))
         = length (filter (\<lambda>(k, v). v \<noteq> JUndefined) data)"
      unfolding createInsert_entries [OF a] c by (simp add: m count_marks comp_def)
  qed
  have s: "snakeCase ''name'' = ''name''" "snakeCase ''type'' = ''type''" by code_simp+
  show "createInsert [(''name'', JStr ''Bob''), (''type'', JStr ''dog''), (''owner'', JUndefined)] offs
       = (''\"name\",\"type\"'', ''?,?'', [JStr ''Bob'', JStr ''dog''])"
    by (simp add: createInsert_def keys_of_def get_prop_def s dq_def)
qed

theorem createInsert_drops_unset_witness:
  "distinct (keys_of [(''lastSeen'', JNull), (''owner'', JUndefined), (''petName'', JStr ''Rex'')])
   \<and> createInsert [(''lastSeen'', JNull), (''owner'', JUndefined), (''petName'', JStr ''Rex'')] 0
       = (''\"last_seen\",\"pet_name\"'', ''?,?'', [JNull, JStr ''Rex''])"
proof -
  have s: "snakeCase ''lastSeen'' = ''last_seen''" "snakeCase ''petName'' = ''pet_name''"
    by code_simp+
  have d: "distinct (keys_of [(''lastSeen'', JNull), (''owner'', JUndefined), (''petName'', JStr ''Rex'')])"
    by (simp add: keys_of_def)
  show ?thesis
    using d createInsert_drops_unset [of "[(''lastSeen'', JNull), (''owner'', JUndefined),
        (''petName'', JStr ''Rex'')]" 0]
    by (simp add: s dq_def)
qed

section \<open>Bulk insert\<close>

lemma bulk_rows_length:
  "bulk_rows json toStr st bulk = (st', rows) \<Longrightarrow> length rows = length bulk"
  by (induction bulk arbitrary: st st' rows) (auto split: prod.splits)

text \<open>
  Claim C9. \<^verbatim>\<open>createBulkInsert\<close> applied to the empty list of rows returns nothing: the
  final concatenation of the rows' values, a \<^verbatim>\<open>reduce\<close> with no initial value, throws
  on the empty array. For every non-empty list of rows it returns its triple of column
  list, placeholders and values.
\<close>

theorem createBulkInsert_empty:
  "createBulkInsert json toStr [] = Inl TypeError
   \<and> (bulk \<noteq> [] \<longrightarrow> (\<exists>r. createBulkInsert json toStr bulk = Inr r))"
proof
  show "createBulkInsert json toStr [] = Inl TypeError"
    by (simp add: createBulkInsert_def)
  show "bulk \<noteq> [] \<longrightarrow> (\<exists>r. createBulkInsert json toStr bulk = Inr r)"
  proof
    assume ne: "bulk \<noteq> []"
    obtain st rows where b: "bulk_rows json toStr (1, [], []) bulk = (st, rows)"
      by (cases "bulk_rows json toStr (1, [], []) bulk")
    from bulk_rows_length [OF b] ne have "rows \<noteq> []" by auto
    then obtain v vs where "rows = v # vs" by (cases rows) auto
    with b show "\<exists>r. createBulkInsert json toStr bulk = Inr r"
      by (cases st) (auto simp: createBulkInsert_def)
  qed
qed

theorem createBulkInsert_empty_witness:
  "[[(''name'', JStr ''Bob'')]] \<noteq> []
   \<and> createBulkInsert (\<lambda>v. ''null'') (\<lambda>v. []) [] = Inl TypeError
   \<and> (\<exists>r. createBulkInsert (\<lambda>v. ''null'') (\<lambda>v. []) [[(''name'', JStr ''Bob'')]] = Inr r)"
  using createBulkInsert_empty [of "\<lambda>v. ''null''" "\<lambda>v. []" "[[(''name'', JStr ''Bob'')]]"]
  by simp

section \<open>The coercion of a row's values\<close>

lemma update_fresh: "k \<notin> fst ` set r \<Longrightarrow> AList.update k v r = r @ [(k, v)]"
  by (induction r) auto

lemma transformValues_fold:
  "distinct (map fst xs) \<Longrightarrow> ''__proto__'' \<notin> fst ` set xs
   \<Longrightarrow> fst ` set acc \<inter> fst ` set xs = {}
   \<Longrightarrow> foldl (\<lambda>r k. set_prop r k (g k)) (np, acc) (map fst xs)
       = (np, acc @ map (\<lambda>e. (fst e, g (fst e))) xs)"
proof (induction xs arbitrary: acc)
  case Nil
  then show ?case by simp
next
  case (Cons x xs)
  have fresh: "fst x \<notin> fst ` set acc" using Cons.prems(3) by auto
  have key: "fst x \<noteq> ''__proto__''" using Cons.prems(2) by auto
  have step: "set_prop (np, acc) (fst x) (g (fst x)) = (np, acc @ [(fst x, g (fst x))])"
    using key update_fresh [OF fresh] by (simp add: set_prop_def)
  have d: "distinct (map fst xs)" using Cons.prems(1) by simp
  have p: "''__proto__'' \<notin> fst ` set xs" using Cons.prems(2) by auto
  have disj: "fst ` set (acc @ [(fst x, g (fst x))]) \<inter> fst ` set xs = {}"
    using Cons.prems by auto
  show ?case
    using Cons.IH [OF d p disj] by (simp add: step)
qed

lemma transformValues_entries:
  assumes "distinct (keys_of from)" and "''__proto__'' \<notin> set (keys_of from)"
  shows "transformValues json toStr from
         = map (\<lambda>e. (fst e, coerce json toStr (fst e) (snd e))) from"
proof -
  have d: "distinct (map fst from)" using assms(1) by (simp add: keys_of_def)
  have p: "''__proto__'' \<notin> fst ` set from" using assms(2) by (simp add: keys_of_def)
  have "transformValues json toStr from
        = map (\<lambda>e. (fst e, coerce json toStr (fst e) (get_prop from (fst e)))) from"
    unfolding transformValues_def keys_of_def
    using transformValues_fold [OF d p, of "[]" "\<lambda>k. coerce json toStr k (get_prop from k)" False]
    by simp
  also have "\<dots> = map (\<lambda>e. (fst e, coerce json toStr (fst e) (snd e))) from"
    using get_prop_distinct [OF d] by simp
  finally show ?thesis .
qed

lemma get_prop_map:
  "get_prop r k \<noteq> JUndefined
   \<Longrightarrow> get_prop (map (\<lambda>e. (fst e, g (fst e) (snd e))) r) k = g k (get_prop r k)"
  by (induction r) (auto simp: get_prop_def)

lemma coerce_cases:
  "coerce json toStr k (JDate d) = JStr (json (JDate d))"
  "coerce json toStr k (JObj ob) = JStr (json (JObj ob))"
  "coerce json toStr k (JBool b) = JStr (json (JBool b))"
  "coerce json toStr k (JArr xs) =
     JStr (if k = ''tags'' then ''{ '' @ join '','' (map (element_text toStr) xs) @ ''}''
           else json (JArr xs))"
  "coerce json toStr k (JNum n) = JNum n"
  "coerce json toStr k (JStr s) = JStr s"
  "coerce json toStr k JNull = JNull"
  by (simp_all add: coerce_def)

lemma createBulkInsert_single:
  assumes "distinct (keys_of from)" and "''__proto__'' \<notin> set (keys_of from)"
  shows "\<exists>cols marks. createBulkInsert json toStr [from]
           = Inr (cols, marks, map (\<lambda>e. coerce json toStr (fst e) (snd e)) from)"
proof -
  let ?data = "transformValues json toStr from"
  have e: "?data = map (\<lambda>e. (fst e, coerce json toStr (fst e) (snd e))) from"
    using assms by (rule transformValues_entries)
  have d: "distinct (map fst ?data)"
    using assms(1) unfolding e by (simp add: keys_of_def comp_def)
  have "map (\<lambda>k. get_prop ?data k) (keys_of ?data) = map snd ?data"
    unfolding keys_of_def using get_prop_distinct [OF d] by (rule map_get_prop_entries)
  also have "\<dots> = map (\<lambda>e. coerce json toStr (fst e) (snd e)) from"
    unfolding e by (simp add: comp_def)
  finally show ?thesis
    by (simp add: createBulkInsert_def bulk_row_def Let_def)
qed

text \<open>
  A row with an own key \<^verbatim>\<open>__proto__\<close> loses it: the assignment on the fresh object goes
  to the prototype's setter.
\<close>

lemma transformValues_proto_key:
  "transformValues json toStr [(''__proto__'', JNum (Fin 5)), (''a'', JNum (Fin 1))]
     = [(''a'', JNum (Fin 1))]"
  by (simp add: transformValues_def keys_of_def get_prop_def set_prop_def coerce_def)

text \<open>
  Claim C10, as amended. For every row without an own key \<^verbatim>\<open>__proto__\<close> that is passed
  through the coercion of the bulk insert, a value that is a Date instance is not passed
  through: the check compares the value with the \<^verbatim>\<open>Date\<close> constructor itself, so every
  Date instance, every plain object and every array under a key other than \<^verbatim>\<open>tags\<close> is
  replaced by the string \<^verbatim>\<open>JSON.stringify\<close> gives for it, while numbers, strings and
  \<^verbatim>\<open>null\<close> stay as they are. Only an array under the key \<^verbatim>\<open>tags\<close> gets the
  array-literal text, which is \<^verbatim>\<open>{ a,b}\<close> for \<^verbatim>\<open>['a','b']\<close>: an opening brace and a
  space, the elements joined by commas, and a closing brace with no space before it. The
  values of a one-row bulk insert are these coerced values, in the row's order.
\<close>

theorem transformValues_coercion:
  "distinct (keys_of from) \<and> ''__proto__'' \<notin> set (keys_of from) \<longrightarrow>
     keys_of (transformValues json toStr from) = keys_of from
     \<and> (\<forall>k d. get_prop from k = JDate d \<longrightarrow>
           get_prop (transformValues json toStr from) k = JStr (json (JDate d))
           \<and> get_prop (transformValues json toStr from) k \<noteq> JDate d)
     \<and> (\<forall>k ob. get_prop from k = JObj ob \<longrightarrow>
           get_prop (transformValues json toStr from) k = JStr (json (JObj ob)))
     \<and> (\<forall>k xs. get_prop from k = JArr xs \<longrightarrow>
           get_prop (transformValues json toStr from) k =
             JStr (if k = ''tags'' then ''{ '' @ join '','' (map (element_text toStr) xs) @ ''}''
                   else json (JArr xs)))
     \<and> (\<forall>k n. get_prop from k = JNum n \<longrightarrow>
           get_prop (transformValues json toStr from) k = JNum n)
     \<and> (\<forall>k s. get_prop from k = JStr s \<longrightarrow>
           get_prop (transformValues json toStr from) k = JStr s)
     \<and> (\<forall>k. get_prop from k = JNull \<longrightarrow>
           get_prop (transformValues json toStr from) k = JNull)
     \<and> (\<exists>cols marks. createBulkInsert json toStr [from]
           = Inr (cols, marks, map (\<lambda>(k, v). coerce json toStr k v) from))"
proof
  assume h: "distinct (keys_of from) \<and> ''__proto__'' \<notin> set (keys_of from)"
  then have a: "distinct (keys_of from)" and p: "''__proto__'' \<notin> set (keys_of from)"
    by simp_all
  note e = transformValues_entries [OF a p, of json toStr]
  have g: "get_prop from k \<noteq> JUndefined \<Longrightarrow>
        get_prop (transformValues json toStr from) k
          = coerce json toStr k (get_prop from k)" for k
    unfolding e by (rule get_prop_map)
  have k: "keys_of (transformValues json toStr from) = keys_of from"
    unfolding e by (simp add: keys_of_def comp_def)
  have c: "(\<lambda>(k, v). coerce json toStr k v) = (\<lambda>e. coerce json toStr (fst e) (snd e))"
    by (auto simp: fun_eq_iff)
  show "keys_of (transformValues json toStr from) = keys_of from
     \<and> (\<forall>k d. get_prop from k = JDate d \<longrightarrow>
           get_prop (transformValues json toStr from) k = JStr (json (JDate d))
           \<and> get_prop (transformValues json toStr from) k \<noteq> JDate d)
     \<and> (\<forall>k ob. get_prop from k = JObj ob \<longrightarrow>
           get_prop (transformValues json toStr from) k = JStr (json (JObj ob)))
     \<and> (\<forall>k xs. get_prop from k = JArr xs \<longrightarrow>
           get_prop (transformValues json toStr from) k =
             JStr (if k = ''tags'' then ''{ '' @ join '','' (map (element_text toStr) xs) @ ''}''
                   else json (JArr xs)))
     \<and> (\<forall>k n. get_prop from k = JNum n \<longrightarrow>
           get_prop (transformValues json toStr from) k = JNum n)
     \<and> (\<forall>k s. get_prop from k = JStr s \<longrightarrow>
           get_prop (transformValues json toStr from) k = JStr s)
     \<and> (\<forall>k. get_prop from k = JNull \<longrightarrow>
           get_prop (transformValues json toStr from) k = JNull)
     \<and> (\<exists>cols marks. createBulkInsert json toStr [from]
           = Inr (cols, marks, map (\<lambda>(k, v). coerce json toStr k v) from))"
    using k createBulkInsert_single [OF a p, of json toStr] unfolding c
    by (simp add: g coerce_cases)
qed

text \<open>
  The text \<^verbatim>\<open>JSON.stringify\<close> gives is a parameter of the model; the evaluation below
  takes one that always gives \<^verbatim>\<open>json\<close>.
\<close>

theorem transformValues_coercion_witness:
  "distinct (keys_of [(''born'', JDate 86400000), (''tags'', JArr [JStr ''a'', JStr ''b''])])
   \<and> ''__proto__'' \<notin> set (keys_of [(''born'', JDate 86400000), (''tags'', JArr [JStr ''a'', JStr ''b''])])
   \<and> get_prop (transformValues (\<lambda>v. ''json'') (\<lambda>v. [])
        [(''born'', JDate 86400000), (''tags'', JArr [JStr ''a'', JStr ''b''])]) ''born''
       = JStr ''json''
   \<and> get_prop (transformValues (\<lambda>v. ''json'') (\<lambda>v. [])
        [(''born'', JDate 86400000), (''tags'', JArr [JStr ''a'', JStr ''b''])]) ''tags''
       = JStr ''{ a,b}''"
proof -
  let ?row = "[(''born'', JDate 86400000), (''tags'', JArr [JStr ''a'', JStr ''b''])]"
  have d: "distinct (keys_of ?row)" by (simp add: keys_of_def)
  have p: "''__proto__'' \<notin> set (keys_of ?row)" by (simp add: keys_of_def)
  have b: "get_prop ?row ''born'' = JDate 86400000" by (simp add: get_prop_def)
  have t: "get_prop ?row ''tags'' = JArr [JStr ''a'', JStr ''b'']" by (simp add: get_prop_def)
  show ?thesis
    using d p b t transformValues_coercion [of ?row "\<lambda>v. ''json''" "\<lambda>v. []"]
    by (simp add: element_text_def)
qed

text \<open>
  The claim as written names the text \<^verbatim>\<open>{ a,b }\<close>; the template
  \<^verbatim>\<open>`{ ${value.join(',')}}`\<close> puts no space before the closing brace.
\<close>

theorem transformValues_tags_counterexample:
  "get_prop (transformValues (\<lambda>v. ''json'') (\<lambda>v. []) [(''tags'', JArr [JStr ''a'', JStr ''b''])]) ''tags''
     = JStr ''{ a,b}''
   \<and> get_prop (transformValues (\<lambda>v. ''json'') (\<lambda>v. []) [(''tags'', JArr [JStr ''a'', JStr ''b''])]) ''tags''
     \<noteq> JStr ''{ a,b }''"
  by (simp add: transformValues_def keys_of_def get_prop_def set_prop_def coerce_def element_text_def)

end
